theory Spec2Isabelle
  imports
    Main
    "HOL-Library.Char_ord"
    "HOL-Library.List_Lexorder"
    "HOL-Library.Sublist"
    "HOL-Library.Multiset"
begin

section \<open>order\_includes: the data model of \<^verbatim>\<open>src/main.cpp\<close>\<close>

text \<open>
  A \<^verbatim>\<open>std::string\<close> is a list of bytes (\<^typ>\<open>string\<close>), a
  \<^verbatim>\<open>std::vector<std::string>\<close> is a list of strings, and an iterator into the
  vector is the index it points at.  \<^verbatim>\<open>std::string::npos\<close> is \<^term>\<open>None\<close>.
  \<^verbatim>\<open>operator<\<close> on \<^verbatim>\<open>std::string\<close> compares bytes as unsigned values,
  lexicographically, a proper prefix being smaller: this is the lexicographic order
  on lists over the order of characters by their codes.
\<close>

definition g_deleted_line :: string where
  "g_deleted_line = ''${THIS_LINE_IS_DELETED}''"

record Result =
  m_path :: string
  m_result_message :: string

datatype ModuleType = StdLib | Platform | ThirdParty | None'

text \<open>
  The enumerators of \<^verbatim>\<open>enum class ModuleType\<close> carry the values 0, 1, 2, 3 in
  the order of their declaration; \<^verbatim>\<open>lhsType < rhsType\<close> compares these values.
\<close>

fun ModuleType_value :: "ModuleType \<Rightarrow> nat" where
  "ModuleType_value StdLib = 0"
| "ModuleType_value Platform = 1"
| "ModuleType_value ThirdParty = 2"
| "ModuleType_value None' = 3"

text \<open>
  \<^verbatim>\<open>std::isspace\<close> in the "C" locale, which the program never changes: space,
  horizontal tab, line feed, vertical tab, form feed and carriage return.  No byte
  from 128 on is whitespace in that locale.
\<close>

definition isspace :: "char \<Rightarrow> bool" where
  "isspace ch =
     (ch = CHR '' '' \<or> ch = CHR 0x09 \<or> ch = CHR 0x0A \<or> ch = CHR 0x0B \<or>
      ch = CHR 0x0C \<or> ch = CHR 0x0D)"

text \<open>
  \<^verbatim>\<open>str.find(pat)\<close>: the least position at which \<^verbatim>\<open>pat\<close> occurs in
  \<^verbatim>\<open>str\<close>, or \<^verbatim>\<open>npos\<close>.
\<close>

primrec string_find :: "string \<Rightarrow> string \<Rightarrow> nat option" where
  "string_find [] pat = (if pat = [] then Some 0 else None)"
| "string_find (c # cs) pat =
     (if prefix pat (c # cs) then Some 0 else map_option Suc (string_find cs pat))"

definition removeSpaces :: "string \<Rightarrow> string" where
  "removeSpaces str = filter (\<lambda>ch. \<not> isspace ch) str"

definition removeComments :: "string \<Rightarrow> string" where
  "removeComments str =
     (case string_find str ''//'' of
        None \<Rightarrow> str
      | Some commentBegin \<Rightarrow> take commentBegin str)"

subsection \<open>The classifier\<close>

definition isThirdPartyModule :: "string \<Rightarrow> bool" where
  "isThirdPartyModule str =
     (string_find str ''\"github.com/'' \<noteq> None \<or>
      string_find str ''\"gopkg.in/'' \<noteq> None \<or>
      string_find str ''\"golang.org/'' \<noteq> None \<or>
      string_find str ''\"pault.ag/'' \<noteq> None)"

definition isPlatformModule :: "string \<Rightarrow> bool" where
  "isPlatformModule str = (string_find str ''\"platform/'' \<noteq> None)"

definition isStdLibModule :: "string \<Rightarrow> bool" where
  "isStdLibModule str =
     (if str = [] then False
      else if list_all isspace str then False
      else if str = g_deleted_line then False
      else if isThirdPartyModule str then False
      else if isPlatformModule str then False
      else if string_find (removeSpaces str) ''//'' = Some 0 then False
      else True)"

definition moduleType :: "string \<Rightarrow> ModuleType" where
  "moduleType str =
     (if isThirdPartyModule str then ThirdParty
      else if isPlatformModule str then Platform
      else if isStdLibModule str then StdLib
      else None')"

subsection \<open>The comparator\<close>

definition removeUserModuleName :: "string \<Rightarrow> string" where
  "removeUserModuleName str =
     (case string_find str ''\"'' of
        None \<Rightarrow> str
      | Some quoteBegin \<Rightarrow> drop quoteBegin str)"

definition cmp :: "string \<Rightarrow> string \<Rightarrow> bool" where
  "cmp lhs rhs =
     (if lhs = g_deleted_line \<and> rhs = g_deleted_line then False
      else if lhs = g_deleted_line then False
      else if rhs = g_deleted_line then True
      else
        let lhsType = moduleType lhs; rhsType = moduleType rhs in
        if lhsType \<noteq> rhsType then ModuleType_value lhsType < ModuleType_value rhsType
        else
          let pureLhs = removeUserModuleName (removeSpaces lhs);
              pureRhs = removeUserModuleName (removeSpaces rhs)
          in pureLhs < pureRhs)"

subsection \<open>The block locator\<close>

text \<open>
  The two \<^verbatim>\<open>while\<close> loops of \<^verbatim>\<open>findIncludes\<close>, the iterators being
  indices into \<^verbatim>\<open>lines\<close>.  The first loop returns the position after the first
  line that reads \<^verbatim>\<open>import(\<close>, the second starts there.
\<close>

function findIncludes_begin :: "string list \<Rightarrow> nat \<Rightarrow> nat" where
  "findIncludes_begin lines i =
     (if i < length lines then
        (if removeComments (removeSpaces (lines ! i)) = ''import('' then i + 1
         else findIncludes_begin lines (i + 1))
      else i)"
  by pat_completeness auto
termination
  by (relation "measure (\<lambda>(lines, i). length lines - i)") auto

function findIncludes_end :: "string list \<Rightarrow> nat \<Rightarrow> nat" where
  "findIncludes_end lines i =
     (if i < length lines then
        (if removeComments (removeSpaces (lines ! i)) = '')'' then i
         else findIncludes_end lines (i + 1))
      else i)"
  by pat_completeness auto
termination
  by (relation "measure (\<lambda>(lines, i). length lines - i)") auto

declare findIncludes_begin.simps [simp del]
declare findIncludes_end.simps [simp del]

definition findIncludes :: "string list \<Rightarrow> nat \<times> nat" where
  "findIncludes lines =
     (let ibegin = findIncludes_begin lines 0;
          iend = findIncludes_end lines ibegin
      in (ibegin, iend))"

subsection \<open>Blank lines, sorting, rendering\<close>

text \<open>
  \<^verbatim>\<open>deleteEmptyLines(begin, end)\<close> overwrites the vector in place; the model
  returns the new vector.  \<^verbatim>\<open>formatFile\<close> calls it with
  \<^verbatim>\<open>begin < end \<le> lines.end()\<close>, so every access is in range.
\<close>

function deleteEmptyLines :: "nat \<Rightarrow> nat \<Rightarrow> string list \<Rightarrow> string list" where
  "deleteEmptyLines i iend lines =
     (if i < iend then
        (if lines ! i = [] then
           deleteEmptyLines (i + 1) iend (lines[i := g_deleted_line])
         else if list_all isspace (lines ! i) then
           deleteEmptyLines (i + 1) iend (lines[i := g_deleted_line])
         else deleteEmptyLines (i + 1) iend lines)
      else lines)"
  by pat_completeness auto
termination
  by (relation "measure (\<lambda>(i, iend, lines). iend - i)") auto

declare deleteEmptyLines.simps [simp del]

text \<open>
  \<^verbatim>\<open>std::sort\<close> is the C++ library's, not this program's.  Its contract, for a
  comparator that is a strict weak ordering: the range is permuted and afterwards no
  element is smaller than one before it.  The order of equivalent elements is not
  specified.  The model takes the library's sort as a parameter \<open>std_sort\<close> on the
  contents of the range, and the theorems assume the contract only.
\<close>

definition std_sort_contract :: "(string list \<Rightarrow> string list) \<Rightarrow> bool" where
  "std_sort_contract std_sort \<longleftrightarrow>
     (\<forall>xs. mset (std_sort xs) = mset xs \<and> sorted_wrt (\<lambda>a b. \<not> cmp b a) (std_sort xs))"

definition sort_range ::
  "(string list \<Rightarrow> string list) \<Rightarrow> nat \<Rightarrow> nat \<Rightarrow> string list \<Rightarrow> string list" where
  "sort_range std_sort ibegin iend lines =
     take ibegin lines @ std_sort (take (iend - ibegin) (drop ibegin lines)) @ drop iend lines"

definition withinIncludes :: "nat \<Rightarrow> nat \<Rightarrow> nat \<Rightarrow> bool" where
  "withinIncludes i ibegin iend \<longleftrightarrow> i \<ge> ibegin \<and> i < iend"

text \<open>
  The \<^verbatim>\<open>for\<close> loop of \<^verbatim>\<open>writeWithoutDeletedLinesAndWithSeparatedGroups\<close>.
  The result is the sequence of lines sent to the stream, each of which
  \<^verbatim>\<open>std::endl\<close> terminates; \<^term>\<open>[]\<close> is the empty line of
  \<^verbatim>\<open>file << std::endl\<close>.
\<close>

function write_loop :: "string list \<Rightarrow> nat \<Rightarrow> nat \<Rightarrow> nat \<Rightarrow> string list" where
  "write_loop lines includeBegin includeEnd i =
     (if i < length lines then
        (if lines ! i \<noteq> g_deleted_line then [lines ! i] else []) @
        (if lines ! i \<noteq> g_deleted_line \<and> i \<noteq> length lines - 1 \<and>
            lines ! (i + 1) \<noteq> g_deleted_line \<and>
            withinIncludes i includeBegin includeEnd \<and>
            withinIncludes (i + 1) includeBegin includeEnd
         then
           (let moduleTypeCurrent = moduleType (lines ! i);
                moduleTypeNext = moduleType (lines ! (i + 1))
            in if moduleTypeCurrent \<noteq> None' \<and> moduleTypeNext \<noteq> None' \<and>
                  moduleTypeCurrent \<noteq> moduleTypeNext
               then [[]] else [])
         else []) @
        write_loop lines includeBegin includeEnd (i + 1)
      else [])"
  by pat_completeness auto
termination
  by (relation "measure (\<lambda>(lines, includeBegin, includeEnd, i). length lines - i)") auto

declare write_loop.simps [simp del]

definition written_lines :: "string list \<Rightarrow> string list" where
  "written_lines lines =
     (let (includeBegin, includeEnd) = findIncludes lines
      in write_loop lines includeBegin includeEnd 0)"

subsection \<open>Files\<close>

text \<open>
  A file system maps a path to the bytes of the file there.  \<^verbatim>\<open>readFile\<close> is the
  \<^verbatim>\<open>std::getline\<close> loop: a line ends at a line feed or at the end of the file, and
  the call that extracts nothing at the end of the file fails and ends the loop.  A
  file that cannot be opened yields no line.  Writing truncates the file and sends
  each line followed by a line feed; the model takes every file that was read to be
  writable.
\<close>

type_synonym filesystem = "string \<rightharpoonup> string"

fun getlines :: "string \<Rightarrow> string \<Rightarrow> string list" where
  "getlines line [] = (if line = [] then [] else [line])"
| "getlines line (ch # rest) =
     (if ch = CHR 0x0A then line # getlines [] rest else getlines (line @ [ch]) rest)"

definition readFile :: "filesystem \<Rightarrow> string \<Rightarrow> string list" where
  "readFile fs path = (case fs path of None \<Rightarrow> [] | Some bytes \<Rightarrow> getlines [] bytes)"

definition endl_terminated :: "string list \<Rightarrow> string" where
  "endl_terminated out = concat (map (\<lambda>line. line @ [CHR 0x0A]) out)"

definition writeWithoutDeletedLinesAndWithSeparatedGroups ::
  "filesystem \<Rightarrow> string \<Rightarrow> string list \<Rightarrow> filesystem" where
  "writeWithoutDeletedLinesAndWithSeparatedGroups fs path lines =
     fs(path \<mapsto> endl_terminated (written_lines lines))"

definition formatFile ::
  "(string list \<Rightarrow> string list) \<Rightarrow> filesystem \<Rightarrow> string \<Rightarrow> Result \<times> filesystem" where
  "formatFile std_sort fs path =
     (let lines = readFile fs path in
      if lines = [] then
        (\<lparr>m_path = path, m_result_message = ''failed to read from file''\<rparr>, fs)
      else
        let (ibegin, iend) = findIncludes lines in
        if ibegin \<ge> iend then
          (\<lparr>m_path = path, m_result_message = ''no includes found''\<rparr>, fs)
        else
          let lines = deleteEmptyLines ibegin iend lines;
              lines = sort_range std_sort ibegin iend lines
          in (\<lparr>m_path = path, m_result_message = ''done''\<rparr>,
              writeWithoutDeletedLinesAndWithSeparatedGroups fs path lines))"

subsection \<open>The batch\<close>

text \<open>
  \<^verbatim>\<open>main\<close> asks the file system three things, which the model takes as
  parameters: \<open>extension\<close> of a path, \<open>is_directory\<close>, and the entries that
  \<open>recursive_directory_iterator\<close> yields, paired with whether the traversal throws
  after the last of them.  The result is the exit code, the results printed, and the
  file system left behind.  An exception is caught before anything is printed.
\<close>

fun format_entries ::
  "(string list \<Rightarrow> string list) \<Rightarrow> (string \<Rightarrow> string) \<Rightarrow> string list \<Rightarrow>
   Result list \<times> filesystem \<Rightarrow> Result list \<times> filesystem" where
  "format_entries std_sort extension [] (result, fs) = (result, fs)"
| "format_entries std_sort extension (p # ps) (result, fs) =
     (if extension p = ''.go'' then
        (let (r, fs') = formatFile std_sort fs p
         in format_entries std_sort extension ps (result @ [r], fs'))
      else format_entries std_sort extension ps (result, fs))"

definition main ::
  "(string list \<Rightarrow> string list) \<Rightarrow> (string \<Rightarrow> string) \<Rightarrow> (string \<Rightarrow> bool) \<Rightarrow>
   (string \<Rightarrow> string list \<times> bool) \<Rightarrow> string list \<Rightarrow> filesystem \<Rightarrow>
   int \<times> Result list \<times> filesystem" where
  "main std_sort extension is_directory recursive_directory_iterator argv fs =
     (if length argv \<noteq> 2 then (- 1, [], fs)
      else
        let path = argv ! 1 in
        if is_directory path then
          (let (entries, throws) = recursive_directory_iterator path;
               (result, fs') = format_entries std_sort extension entries ([], fs)
           in if throws then (- 2, [], fs')
              else if result = [] then (- 3, result, fs')
              else (0, result, fs'))
        else
          (let (result, fs') = format_entries std_sort extension [path] ([], fs)
           in if result = [] then (- 3, result, fs') else (0, result, fs')))"

subsection \<open>A sorting procedure that meets the contract of the library's\<close>

text \<open>
  Insertion from the right end of the range: \<open>insertion_sort\<close> puts an element
  before the equivalent ones already placed and so keeps the order of equivalent
  elements.
\<close>

fun insert_before :: "string \<Rightarrow> string list \<Rightarrow> string list" where
  "insert_before x [] = [x]"
| "insert_before x (y # ys) = (if cmp y x then y # insert_before x ys else x # y # ys)"

definition insertion_sort :: "string list \<Rightarrow> string list" where
  "insertion_sort xs = foldr insert_before xs []"

subsection \<open>The sort of GNU libstdc++\<close>























subsection \<open>Notions used to state the properties\<close>

text \<open>
  The two tests of \<^verbatim>\<open>findIncludes\<close> on a line, and the effect of
  \<^verbatim>\<open>deleteEmptyLines\<close> on one line (the empty string is a case of
  \<^verbatim>\<open>std::all_of\<close> over no character).
\<close>

definition opens :: "string \<Rightarrow> bool" where
  "opens line \<longleftrightarrow> removeComments (removeSpaces line) = ''import(''"

definition closes :: "string \<Rightarrow> bool" where
  "closes line \<longleftrightarrow> removeComments (removeSpaces line) = '')''"

definition blank_to_deleted :: "string \<Rightarrow> string" where
  "blank_to_deleted line = (if list_all isspace line then g_deleted_line else line)"

text \<open>
  The lines that the writer lets through, and the renderer of the spec on the
  surviving lines of a block: one empty line between two consecutive lines whose
  categories differ and are both not None, and nothing else added.
\<close>

definition surviving :: "string list \<Rightarrow> string list" where
  "surviving lines = filter (\<lambda>line. line \<noteq> g_deleted_line) lines"

definition boundary :: "string \<Rightarrow> string \<Rightarrow> bool" where
  "boundary current next \<longleftrightarrow>
     moduleType current \<noteq> None' \<and> moduleType next \<noteq> None' \<and>
     moduleType current \<noteq> moduleType next"

fun separated :: "string list \<Rightarrow> string list" where
  "separated [] = []"
| "separated [x] = [x]"
| "separated (x # y # rest) =
     x # (if boundary x y then [[]] else []) @ separated (y # rest)"

text \<open>
  The body of the writer's loop at index \<open>i\<close>, on the lines from \<open>i\<close> on: the form
  in which the loop is reasoned about.
\<close>

fun write_list :: "nat \<Rightarrow> nat \<Rightarrow> nat \<Rightarrow> string list \<Rightarrow> string list" where
  "write_list includeBegin includeEnd i [] = []"
| "write_list includeBegin includeEnd i (x # xs) =
     (if x \<noteq> g_deleted_line then [x] else []) @
     (if x \<noteq> g_deleted_line \<and> xs \<noteq> [] \<and> hd xs \<noteq> g_deleted_line \<and>
         withinIncludes i includeBegin includeEnd \<and>
         withinIncludes (i + 1) includeBegin includeEnd \<and> boundary x (hd xs)
      then [[]] else []) @
     write_list includeBegin includeEnd (i + 1) xs"

text \<open>
  The order that \<^verbatim>\<open>cmp\<close> induces on two lines of a block, the earlier one first,
  in the functions of the program: by the value of \<^verbatim>\<open>moduleType\<close>, and within a
  category by what \<^verbatim>\<open>removeUserModuleName\<close> returns on the line without spaces.
\<close>

definition category_then_key :: "string \<Rightarrow> string \<Rightarrow> bool" where
  "category_then_key earlier later \<longleftrightarrow>
     (if moduleType earlier \<noteq> moduleType later
      then ModuleType_value (moduleType earlier) < ModuleType_value (moduleType later)
      else removeUserModuleName (removeSpaces earlier)
             \<le> removeUserModuleName (removeSpaces later))"

text \<open>
  No two different lines of the list are equivalent under the comparator.
\<close>

definition tie_free :: "string list \<Rightarrow> bool" where
  "tie_free xs = list_all (\<lambda>x. list_all (\<lambda>y. cmp x y \<or> cmp y x \<or> x = y) xs) xs"

text \<open>
  The lines of the block that \<^verbatim>\<open>formatFile\<close> hands to the writer and the writer
  lets through: the range after \<^verbatim>\<open>deleteEmptyLines\<close> and the sort, without the
  sentinel.
\<close>

definition transformed_block :: "(string list \<Rightarrow> string list) \<Rightarrow> string list \<Rightarrow> string list" where
  "transformed_block std_sort lines =
     (let (ibegin, iend) = findIncludes lines;
          lines' = sort_range std_sort ibegin iend (deleteEmptyLines ibegin iend lines)
      in surviving (take (iend - ibegin) (drop ibegin lines')))"


text \<open>
  The category, its rank and the import path key as the spec words them, without
  reference to the functions of the program: the whitespace characters by name, the
  rules of the classifier on the text of the line, the ranks 0 to 3 in the order
  StandardLibrary, Platform, ThirdParty, None, and the key as the text without
  whitespace from its first quotation mark on (all of it when it has none).
\<close>

definition whitespace_chars :: string where
  "whitespace_chars = [CHR '' '', CHR 0x09, CHR 0x0A, CHR 0x0B, CHR 0x0C, CHR 0x0D]"

definition spec_category :: "string \<Rightarrow> ModuleType" where
  "spec_category line =
     (if sublist ''\"github.com/'' line \<or> sublist ''\"gopkg.in/'' line \<or>
         sublist ''\"golang.org/'' line \<or> sublist ''\"pault.ag/'' line then ThirdParty
      else if sublist ''\"platform/'' line then Platform
      else if \<not> list_all (\<lambda>ch. ch \<in> set whitespace_chars) line \<and>
              line \<noteq> g_deleted_line \<and>
              \<not> prefix ''//'' (filter (\<lambda>ch. ch \<notin> set whitespace_chars) line)
           then StdLib
      else None')"

fun spec_rank :: "ModuleType \<Rightarrow> nat" where
  "spec_rank StdLib = 0"
| "spec_rank Platform = 1"
| "spec_rank ThirdParty = 2"
| "spec_rank None' = 3"

definition import_path_key :: "string \<Rightarrow> string" where
  "import_path_key line =
     (let text = filter (\<lambda>ch. ch \<notin> set whitespace_chars) line
      in if CHR 0x22 \<in> set text then dropWhile (\<lambda>ch. ch \<noteq> CHR 0x22) text else text)"

subsection \<open>Example files\<close>

text \<open>
  A file with an import block of three categories and a blank line, a file with a
  single import and no block, a block with two aliases of one package, and a file
  that holds the sentinel's text outside its import block.
\<close>

definition example_block :: "string list" where
  "example_block =
     [''package x'',
      ''import ('',
      CHR 0x09 # ''\"fmt\"'',
      '''',
      CHR 0x09 # ''\"github.com/x/y\"'',
      CHR 0x09 # ''\"platform/z\"'',
      '')'',
      ''func f() {}'']"

definition example_single :: "string list" where
  "example_single = [''package x'', ''import \"fmt\"'']"

definition example_aliases :: "string list" where
  "example_aliases = [''import ('', ''a \"fmt\"'', ''b \"fmt\"'', '')'']"

definition example_sentinel :: "string list" where
  "example_sentinel =
     [''import ('', ''\"os\"'', ''\"fmt\"'', '')'', ''const s = `'', g_deleted_line, ''`'']"

definition example_fs :: filesystem where
  "example_fs =
     [''a.go'' \<mapsto> endl_terminated example_block,
      ''b.go'' \<mapsto> endl_terminated example_single,
      ''c.go'' \<mapsto> endl_terminated example_aliases,
      ''d.go'' \<mapsto> endl_terminated example_sentinel,
      ''e.go'' \<mapsto> []]"

text \<open>
  For the example paths, whose names end in a dot and two letters or in \<open>.txt\<close>, the
  extension is read off the last three or four characters.
\<close>

definition example_extension :: "string \<Rightarrow> string" where
  "example_extension path =
     (if drop (length path - 4) path = ''.txt'' then ''.txt'' else drop (length path - 3) path)"

text \<open>
  Further files: seventeen aliases of one package, which are seventeen lines
  equivalent under \<open>cmp\<close>; a block of blank lines only; a block whose lines carry
  aliases; and a block whose delimiters carry comments.
\<close>

definition example_tied :: "string list" where
  "example_tied =
     [''import ('',
      ''a \"fmt\"'', ''b \"fmt\"'', ''c \"fmt\"'', ''d \"fmt\"'', ''e \"fmt\"'', ''f \"fmt\"'',
      ''g \"fmt\"'', ''h \"fmt\"'', ''i \"fmt\"'', ''j \"fmt\"'', ''k \"fmt\"'', ''l \"fmt\"'',
      ''m \"fmt\"'', ''n \"fmt\"'', ''o \"fmt\"'', ''p \"fmt\"'', ''q \"fmt\"'',
      '')'']"

definition example_blank_block :: "string list" where
  "example_blank_block = [''import ('', '''', ''  '', '')'']"

definition example_alias_block :: "string list" where
  "example_alias_block =
     [''import ('',
      ''  z \"os\"'',
      ''  a \"strings\"'',
      ''  \"fmt\"'',
      ''  y \"platform/b\"'',
      ''  b \"platform/a\"'',
      '')'']"

definition example_commented :: "string list" where
  "example_commented = [''import ( // dependencies'', ''  \"fmt\"'', '') // end of imports'']"

definition example_fs2 :: filesystem where
  "example_fs2 =
     [''f.go'' \<mapsto> endl_terminated example_tied,
      ''g.go'' \<mapsto> endl_terminated example_blank_block,
      ''h.go'' \<mapsto> endl_terminated example_alias_block]"



section \<open>Properties of the string primitives\<close>

lemma string_find_None_iff: "string_find s pat = None \<longleftrightarrow> \<not> sublist pat s"
  by (induction s) (auto simp: sublist_Cons_right)

lemma string_find_Some_0_iff: "string_find s pat = Some 0 \<longleftrightarrow> prefix pat s"
  by (cases s) auto

lemma string_find_contains: "string_find s pat \<noteq> None \<longleftrightarrow> sublist pat s"
  by (simp add: string_find_None_iff)

lemma string_find_no_char:
  "c \<notin> set s \<Longrightarrow> string_find s [c] = None"
  by (induction s) auto

lemma ModuleType_value_inj: "ModuleType_value a = ModuleType_value b \<longleftrightarrow> a = b"
  by (cases a; cases b) simp_all

section \<open>The loops as list functions\<close>

lemma findIncludes_end_takeWhile:
  "i \<le> length lines \<Longrightarrow>
   findIncludes_end lines i = i + length (takeWhile (\<lambda>l. \<not> closes l) (drop i lines))"
proof (induction lines i rule: findIncludes_end.induct)
  case (1 lines i)
  show ?case
  proof (cases "i < length lines")
    case True
    then have d: "drop i lines = lines ! i # drop (Suc i) lines"
      by (simp add: Cons_nth_drop_Suc)
    show ?thesis
    proof (cases "closes (lines ! i)")
      case True
      with \<open>i < length lines\<close> d show ?thesis
        by (subst findIncludes_end.simps) (simp add: closes_def)
    next
      case False
      with \<open>i < length lines\<close> have "findIncludes_end lines i = findIncludes_end lines (i + 1)"
        by (subst findIncludes_end.simps) (simp add: closes_def)
      also have "\<dots> = i + 1 + length (takeWhile (\<lambda>l. \<not> closes l) (drop (i + 1) lines))"
        using "1.IH" \<open>i < length lines\<close> False by (simp add: closes_def)
      finally show ?thesis using d False by simp
    qed
  next
    case False
    with "1.prems" show ?thesis
      by (subst findIncludes_end.simps) simp
  qed
qed

lemma findIncludes_begin_takeWhile:
  "i \<le> length lines \<Longrightarrow>
   findIncludes_begin lines i =
     (let k = i + length (takeWhile (\<lambda>l. \<not> opens l) (drop i lines))
      in if k < length lines then k + 1 else k)"
proof (induction lines i rule: findIncludes_begin.induct)
  case (1 lines i)
  show ?case
  proof (cases "i < length lines")
    case True
    then have d: "drop i lines = lines ! i # drop (Suc i) lines"
      by (simp add: Cons_nth_drop_Suc)
    show ?thesis
    proof (cases "opens (lines ! i)")
      case True
      with \<open>i < length lines\<close> d show ?thesis
        by (subst findIncludes_begin.simps) (simp add: opens_def)
    next
      case False
      with \<open>i < length lines\<close> have "findIncludes_begin lines i = findIncludes_begin lines (i + 1)"
        by (subst findIncludes_begin.simps) (simp add: opens_def)
      also have "\<dots> = (let k = i + 1 + length (takeWhile (\<lambda>l. \<not> opens l) (drop (i + 1) lines))
          in if k < length lines then k + 1 else k)"
        using "1.IH" \<open>i < length lines\<close> False by (simp add: opens_def)
      finally show ?thesis using d False by (simp add: Let_def)
    qed
  next
    case False
    with "1.prems" show ?thesis
      by (subst findIncludes_begin.simps) simp
  qed
qed

lemma findIncludes_end_append:
  assumes "\<forall>l\<in>set blk. \<not> closes l" and "rest = [] \<or> closes (hd rest)"
  shows "findIncludes_end (pre @ blk @ rest) (length pre) = length pre + length blk"
proof -
  have "takeWhile (\<lambda>l. \<not> closes l) rest = []"
    using assms(2) by (cases rest) auto
  with assms(1) have "takeWhile (\<lambda>l. \<not> closes l) (blk @ rest) = blk"
    by (simp add: takeWhile_append2)
  then show ?thesis
    by (simp add: findIncludes_end_takeWhile)
qed

lemma findIncludes_begin_append:
  assumes "\<forall>l\<in>set pre. \<not> opens l" and "opens l"
  shows "findIncludes_begin (pre @ l # rest) 0 = length pre + 1"
proof -
  have "takeWhile (\<lambda>l. \<not> opens l) (pre @ l # rest) = pre"
    using assms by (simp add: takeWhile_append2)
  then show ?thesis
    by (simp add: findIncludes_begin_takeWhile)
qed

lemma findIncludes_begin_none:
  assumes "\<forall>l\<in>set lines. \<not> opens l"
  shows "findIncludes_begin lines 0 = length lines"
proof -
  have tw: "takeWhile (\<lambda>l. \<not> opens l) lines = lines"
    using assms by simp
  have "findIncludes_begin lines 0 =
      (let k = 0 + length (takeWhile (\<lambda>l. \<not> opens l) (drop 0 lines))
       in if k < length lines then k + 1 else k)"
    by (rule findIncludes_begin_takeWhile) simp
  then show ?thesis
    unfolding drop_0 tw by (simp add: Let_def)
qed

lemma findIncludes_block:
  assumes "\<forall>l\<in>set pre. \<not> opens l" and "opens l"
    and "\<forall>l\<in>set blk. \<not> closes l" and "rest = [] \<or> closes (hd rest)"
  shows "findIncludes (pre @ l # blk @ rest) = (length pre + 1, length pre + 1 + length blk)"
proof -
  have "findIncludes_end ((pre @ [l]) @ blk @ rest) (length (pre @ [l])) = length (pre @ [l]) + length blk"
    using assms(3,4) by (rule findIncludes_end_append)
  then show ?thesis
    using findIncludes_begin_append [OF assms(1,2), of "blk @ rest"]
    by (simp add: findIncludes_def)
qed

lemma findIncludes_none:
  assumes "\<forall>l\<in>set lines. \<not> opens l"
  shows "findIncludes lines = (length lines, length lines)"
  using findIncludes_begin_none [OF assms]
  by (simp add: findIncludes_def findIncludes_end_takeWhile Let_def)

lemma findIncludes_cases:
  obtains (none) "\<forall>l\<in>set lines. \<not> opens l" "findIncludes lines = (length lines, length lines)"
  | (block) pre l blk rest where "lines = pre @ l # blk @ rest"
      "\<forall>l\<in>set pre. \<not> opens l" "opens l" "\<forall>l\<in>set blk. \<not> closes l" "rest = [] \<or> closes (hd rest)"
      "findIncludes lines = (length pre + 1, length pre + 1 + length blk)"
proof (cases "\<forall>l\<in>set lines. \<not> opens l")
  case True
  then show ?thesis using none findIncludes_none by blast
next
  case False
  define pre where "pre = takeWhile (\<lambda>l. \<not> opens l) lines"
  define tl0 where "tl0 = dropWhile (\<lambda>l. \<not> opens l) lines"
  have "tl0 \<noteq> []" using False by (auto simp: tl0_def)
  then obtain l after where tl0: "tl0 = l # after" by (cases tl0) auto
  have ol: "opens l" using tl0 hd_dropWhile [of "\<lambda>l. \<not> opens l" lines] \<open>tl0 \<noteq> []\<close>
    by (auto simp: tl0_def)
  define blk where "blk = takeWhile (\<lambda>l. \<not> closes l) after"
  define rest where "rest = dropWhile (\<lambda>l. \<not> closes l) after"
  have 1: "lines = pre @ l # blk @ rest"
    using tl0 by (metis pre_def tl0_def blk_def rest_def takeWhile_dropWhile_id)
  have 2: "\<forall>l\<in>set pre. \<not> opens l" by (auto simp: pre_def dest: set_takeWhileD)
  have 3: "\<forall>l\<in>set blk. \<not> closes l" by (auto simp: blk_def dest: set_takeWhileD)
  have 4: "rest = [] \<or> closes (hd rest)"
    using hd_dropWhile [of "\<lambda>l. \<not> closes l" after] by (auto simp: rest_def)
  show ?thesis
    using block [OF 1 2 ol 3 4] findIncludes_block [OF 2 ol 3 4] 1 by simp
qed

lemma deleteEmptyLines_map:
  "i \<le> iend \<Longrightarrow> iend \<le> length lines \<Longrightarrow>
   deleteEmptyLines i iend lines =
     take i lines @ map blank_to_deleted (take (iend - i) (drop i lines)) @ drop iend lines"
proof (induction i iend lines rule: deleteEmptyLines.induct)
  case (1 i iend lines)
  show ?case
  proof (cases "i < iend")
    case False
    with "1.prems" have "i = iend" by simp
    then show ?thesis
      by (subst deleteEmptyLines.simps) simp
  next
    case True
    with "1.prems" have il: "i < length lines" by simp
    define lines' where "lines' = lines[i := blank_to_deleted (lines ! i)]"
    have step: "deleteEmptyLines i iend lines = deleteEmptyLines (i + 1) iend lines'"
      using True by (subst deleteEmptyLines.simps) (auto simp: lines'_def blank_to_deleted_def)
    have len: "length lines' = length lines" by (simp add: lines'_def)
    have IH: "deleteEmptyLines (i + 1) iend lines' =
      take (i + 1) lines' @ map blank_to_deleted (take (iend - (i + 1)) (drop (i + 1) lines')) @ drop iend lines'"
    proof (cases "lines ! i = []")
      case True
      then have "lines' = lines[i := g_deleted_line]" by (simp add: lines'_def blank_to_deleted_def)
      with "1.IH"(1) [OF \<open>i < iend\<close> True] "1.prems" \<open>i < iend\<close> show ?thesis by simp
    next
      case ne: False
      show ?thesis
      proof (cases "list_all isspace (lines ! i)")
        case True
        then have "lines' = lines[i := g_deleted_line]" by (simp add: lines'_def blank_to_deleted_def)
        with "1.IH"(2) [OF \<open>i < iend\<close> ne True] "1.prems" \<open>i < iend\<close> show ?thesis by simp
      next
        case False
        then have "lines' = lines" by (simp add: lines'_def blank_to_deleted_def)
        with "1.IH"(3) [OF \<open>i < iend\<close> ne False] "1.prems" \<open>i < iend\<close> show ?thesis by simp
      qed
    qed
    have a: "take (i + 1) lines' = take i lines @ [blank_to_deleted (lines ! i)]"
      using il by (simp add: lines'_def take_Suc_conv_app_nth)
    have b: "drop (i + 1) lines' = drop (i + 1) lines" by (simp add: lines'_def)
    have c: "drop iend lines' = drop iend lines" using True by (simp add: lines'_def)
    have d: "take (iend - i) (drop i lines) = lines ! i # take (iend - (i + 1)) (drop (i + 1) lines)"
      using True il by (metis Cons_nth_drop_Suc Suc_diff_Suc Suc_eq_plus1 take_Suc_Cons)
    show ?thesis
      unfolding step IH a b c d by simp
  qed
qed

lemma sentinel_not_delimiter: "\<not> opens g_deleted_line" "\<not> closes g_deleted_line"
  by (simp_all add: opens_def closes_def g_deleted_line_def removeSpaces_def isspace_def
      removeComments_def)

lemma blank_to_deleted_not_closes: "\<not> closes l \<Longrightarrow> \<not> closes (blank_to_deleted l)"
  by (simp add: blank_to_deleted_def sentinel_not_delimiter)

lemma std_sort_set: "std_sort_contract std_sort \<Longrightarrow> set (std_sort xs) = set xs"
  unfolding std_sort_contract_def by (metis set_mset_mset)

lemma std_sort_length: "std_sort_contract std_sort \<Longrightarrow> length (std_sort xs) = length xs"
  unfolding std_sort_contract_def by (metis size_mset)

lemma formatted_structure:
  assumes "std_sort_contract std_sort" and "findIncludes lines = (ibegin, iend)"
    and "ibegin < iend"
  obtains pre l blk rest where
    "lines = pre @ l # blk @ rest"
    "\<forall>l\<in>set pre. \<not> opens l" "opens l" "\<forall>l\<in>set blk. \<not> closes l"
    "rest = [] \<or> closes (hd rest)"
    "ibegin = length pre + 1" "iend = length pre + 1 + length blk" "blk \<noteq> []"
    "deleteEmptyLines ibegin iend lines = pre @ l # map blank_to_deleted blk @ rest"
    "sort_range std_sort ibegin iend (deleteEmptyLines ibegin iend lines) =
       pre @ l # std_sort (map blank_to_deleted blk) @ rest"
proof (cases lines rule: findIncludes_cases)
  case none
  with assms(2,3) show ?thesis by simp
next
  case (block pre l blk rest)
  with assms(2) have b: "ibegin = length pre + 1" and e: "iend = length pre + 1 + length blk"
    by simp_all
  have ne: "blk \<noteq> []" using assms(3) b e by auto
  have d: "deleteEmptyLines ibegin iend lines = pre @ l # map blank_to_deleted blk @ rest"
    unfolding b e block(1)
    by (subst deleteEmptyLines_map) simp_all
  have s: "sort_range std_sort ibegin iend (pre @ l # map blank_to_deleted blk @ rest) =
       pre @ l # std_sort (map blank_to_deleted blk) @ rest"
    unfolding b e sort_range_def by simp
  show ?thesis
    using that [OF block(1-5) b e ne d] s d by simp
qed

section \<open>The comparator as an ordering, and the insertion sort\<close>

lemma cmp_irrefl: "\<not> cmp a a"
  by (simp add: cmp_def)

lemma cmp_asym: "cmp a b \<Longrightarrow> \<not> cmp b a"
  unfolding cmp_def Let_def
  by (auto simp: ModuleType_value_inj split: if_splits)

lemma cmp_trans: "cmp a b \<Longrightarrow> cmp b c \<Longrightarrow> cmp a c"
  unfolding cmp_def Let_def
  by (auto simp: ModuleType_value_inj split: if_splits)

lemma cmp_negtrans: "\<not> cmp a b \<Longrightarrow> \<not> cmp b c \<Longrightarrow> \<not> cmp a c"
  unfolding cmp_def Let_def
  by (auto simp: ModuleType_value_inj split: if_splits)

lemma set_insert_before: "set (insert_before x ys) = insert x (set ys)"
  by (induction ys) auto

lemma mset_insert_before: "mset (insert_before x ys) = add_mset x (mset ys)"
  by (induction ys) auto

lemma sorted_insert_before:
  "sorted_wrt (\<lambda>a b. \<not> cmp b a) ys \<Longrightarrow> sorted_wrt (\<lambda>a b. \<not> cmp b a) (insert_before x ys)"
proof (induction ys)
  case Nil
  then show ?case by simp
next
  case (Cons y ys)
  show ?case
  proof (cases "cmp y x")
    case True
    then have "\<not> cmp x y" by (rule cmp_asym)
    with True Cons show ?thesis by (auto simp: set_insert_before)
  next
    case False
    have "\<forall>z\<in>set ys. \<not> cmp z x"
    proof
      fix z assume "z \<in> set ys"
      then have "\<not> cmp z y" using Cons.prems by simp
      then show "\<not> cmp z x" using False by (rule cmp_negtrans)
    qed
    with False Cons.prems show ?thesis by simp
  qed
qed

lemma insertion_sort_contract: "std_sort_contract insertion_sort"
proof -
  have "mset (foldr insert_before xs []) = mset xs \<and>
        sorted_wrt (\<lambda>a b. \<not> cmp b a) (foldr insert_before xs [])" for xs
    by (induction xs) (simp_all add: mset_insert_before sorted_insert_before)
  then show ?thesis
    by (simp add: std_sort_contract_def insertion_sort_def)
qed

section \<open>The writer's loop on a sorted block\<close>

lemma write_loop_write_list:
  "i \<le> length lines \<Longrightarrow>
   write_loop lines includeBegin includeEnd i =
     write_list includeBegin includeEnd i (drop i lines)"
proof (induction lines includeBegin includeEnd i rule: write_loop.induct)
  case (1 lines b e i)
  show ?case
  proof (cases "i < length lines")
    case False
    with "1.prems" show ?thesis
      by (subst write_loop.simps) simp
  next
    case True
    then have d: "drop i lines = lines ! i # drop (i + 1) lines"
      by (simp add: Cons_nth_drop_Suc)
    have IH: "write_loop lines b e (i + 1) = write_list b e (i + 1) (drop (i + 1) lines)"
      using "1.IH" True by simp
    have last: "i \<noteq> length lines - 1 \<longleftrightarrow> drop (i + 1) lines \<noteq> []"
      using True by auto
    have nxt: "drop (i + 1) lines \<noteq> [] \<Longrightarrow> hd (drop (i + 1) lines) = lines ! (i + 1)"
      by (simp add: hd_drop_conv_nth)
    show ?thesis
      apply (subst write_loop.simps)
      apply (subst d)
      using True IH last nxt
      apply (auto simp: Let_def boundary_def)
      done
  qed
qed

lemma write_list_before:
  "i + length xs \<le> b \<Longrightarrow>
   write_list b e i (xs @ ys) = surviving xs @ write_list b e (i + length xs) ys"
  by (induction xs arbitrary: i) (auto simp: surviving_def withinIncludes_def)

lemma write_list_after:
  "e \<le> i \<Longrightarrow> write_list b e i xs = surviving xs"
  by (induction xs arbitrary: i) (auto simp: surviving_def withinIncludes_def)

lemma write_list_sentinels:
  "\<forall>x\<in>set xs. x = g_deleted_line \<Longrightarrow>
   write_list b e i (xs @ ys) = write_list b e (i + length xs) ys"
  by (induction xs arbitrary: i) auto

lemma write_list_block:
  "\<forall>x\<in>set ns. x \<noteq> g_deleted_line \<Longrightarrow> \<forall>x\<in>set ss. x = g_deleted_line \<Longrightarrow>
   b \<le> i \<Longrightarrow> i + length ns + length ss = e \<Longrightarrow>
   write_list b e i (ns @ ss @ rest) = separated ns @ surviving rest"
proof (induction ns arbitrary: i rule: separated.induct)
  case 1
  then show ?case
    by (simp add: write_list_sentinels write_list_after)
next
  case (2 x)
  have "write_list b e (i + 1) (ss @ rest) = surviving rest"
    using 2 by (simp add: write_list_sentinels write_list_after)
  moreover have "\<not> (ss @ rest \<noteq> [] \<and> hd (ss @ rest) \<noteq> g_deleted_line \<and> withinIncludes (i + 1) b e)"
  proof (cases ss)
    case Nil
    then show ?thesis using 2 by (simp add: withinIncludes_def)
  next
    case (Cons s ss')
    then show ?thesis using 2 by simp
  qed
  ultimately show ?case using 2 by auto
next
  case (3 x y rest')
  have "write_list b e (i + 1) ((y # rest') @ ss @ rest) = separated (y # rest') @ surviving rest"
    using 3 by (intro "3.IH") auto
  moreover have "withinIncludes i b e" "withinIncludes (i + 1) b e"
    using 3 by (auto simp: withinIncludes_def)
  ultimately show ?case using 3 by auto
qed

lemma sorted_sentinels_last:
  "sorted_wrt (\<lambda>a b. \<not> cmp b a) xs \<Longrightarrow>
   xs = surviving xs @ filter (\<lambda>l. l = g_deleted_line) xs"
proof (induction xs)
  case Nil
  then show ?case by (simp add: surviving_def)
next
  case (Cons x xs)
  show ?case
  proof (cases "x = g_deleted_line")
    case True
    have "\<forall>y\<in>set xs. y = g_deleted_line"
    proof
      fix y assume "y \<in> set xs"
      then have "\<not> cmp y x" using Cons.prems by simp
      then show "y = g_deleted_line" using True by (auto simp: cmp_def split: if_splits)
    qed
    then have "surviving xs = []" "filter (\<lambda>l. l = g_deleted_line) xs = xs"
      by (auto simp: surviving_def filter_empty_conv)
    with True show ?thesis by (simp add: surviving_def)
  next
    case False
    with Cons show ?thesis by (simp add: surviving_def)
  qed
qed

lemma written_lines_structure:
  assumes "\<forall>l\<in>set pre. \<not> opens l" and "opens l" and "\<forall>l\<in>set blk. \<not> closes l"
    and "rest = [] \<or> closes (hd rest)"
    and "sorted_wrt (\<lambda>a b. \<not> cmp b a) blk"
  shows "written_lines (pre @ l # blk @ rest) =
     surviving (pre @ [l]) @ separated (surviving blk) @ surviving rest"
proof -
  let ?b = "length pre + 1"
  let ?e = "length pre + 1 + length blk"
  have f: "findIncludes (pre @ l # blk @ rest) = (?b, ?e)"
    using assms(1-4) by (rule findIncludes_block)
  have split: "blk = surviving blk @ filter (\<lambda>l. l = g_deleted_line) blk"
    using assms(5) by (rule sorted_sentinels_last)
  have len: "length (surviving blk) + length (filter (\<lambda>l. l = g_deleted_line) blk) = length blk"
    by (metis split length_append)
  have "write_loop (pre @ l # blk @ rest) ?b ?e 0 =
      write_list ?b ?e 0 ((pre @ [l]) @ blk @ rest)"
    by (simp add: write_loop_write_list)
  also have "\<dots> = surviving (pre @ [l]) @ write_list ?b ?e ?b (blk @ rest)"
    by (subst write_list_before) simp_all
  also have "write_list ?b ?e ?b (blk @ rest) =
      write_list ?b ?e ?b (surviving blk @ filter (\<lambda>l. l = g_deleted_line) blk @ rest)"
    using split by (metis append.assoc)
  also have "\<dots> = separated (surviving blk) @ surviving rest"
    using len by (intro write_list_block) (auto simp: surviving_def)
  finally show ?thesis
    by (simp add: written_lines_def f)
qed

section \<open>What \<open>formatFile\<close> writes\<close>

lemma formatFile_done:
  assumes c: "std_sort_contract std_sort" and r: "readFile fs path = lines"
    and f: "findIncludes lines = (ibegin, iend)" and lt: "ibegin < iend"
  shows "formatFile std_sort fs path =
     (\<lparr>m_path = path, m_result_message = ''done''\<rparr>,
      fs(path \<mapsto> endl_terminated
          (surviving (take ibegin lines) @ separated (transformed_block std_sort lines) @
           surviving (drop iend lines))))"
proof -
  from c f lt obtain pre l blk rest where
    L: "lines = pre @ l # blk @ rest"
    and P: "\<forall>l\<in>set pre. \<not> opens l" "opens l" "\<forall>l\<in>set blk. \<not> closes l"
      "rest = [] \<or> closes (hd rest)"
    and b: "ibegin = length pre + 1" and e: "iend = length pre + 1 + length blk"
    and s: "sort_range std_sort ibegin iend (deleteEmptyLines ibegin iend lines) =
       pre @ l # std_sort (map blank_to_deleted blk) @ rest"
    by (rule formatted_structure)
  let ?sorted = "std_sort (map blank_to_deleted blk)"
  have n: "\<forall>l\<in>set ?sorted. \<not> closes l"
    using P(3) by (simp add: std_sort_set [OF c] blank_to_deleted_not_closes)
  have so: "sorted_wrt (\<lambda>a b. \<not> cmp b a) ?sorted"
    using c by (simp add: std_sort_contract_def)
  have len: "length ?sorted = length blk"
    by (simp add: std_sort_length [OF c])
  have w: "written_lines (pre @ l # ?sorted @ rest) =
      surviving (pre @ [l]) @ separated (surviving ?sorted) @ surviving rest"
    using P(1,2) n P(4) so by (rule written_lines_structure)
  have tb: "transformed_block std_sort lines = surviving ?sorted"
    unfolding transformed_block_def f by (simp add: s) (simp add: b e len)
  have t: "take ibegin lines = pre @ [l]" and d: "drop iend lines = rest"
    by (simp_all add: L b e)
  have ne: "lines \<noteq> []" by (simp add: L)
  show ?thesis
    unfolding formatFile_def writeWithoutDeletedLinesAndWithSeparatedGroups_def
    using ne lt by (simp add: r f s w tb t d)
qed

lemma formatFile_done_iff:
  assumes "readFile fs path = lines" and "findIncludes lines = (ibegin, iend)"
  shows "m_result_message (fst (formatFile std_sort fs path)) = ''done'' \<longleftrightarrow>
     lines \<noteq> [] \<and> ibegin < iend"
  using assms by (auto simp: formatFile_def Let_def)

lemma category_then_key_iff:
  "a \<noteq> g_deleted_line \<Longrightarrow> b \<noteq> g_deleted_line \<Longrightarrow> category_then_key a b \<longleftrightarrow> \<not> cmp b a"
  unfolding category_then_key_def cmp_def Let_def
  using ModuleType_value_inj [of "moduleType a" "moduleType b"]
  by auto

lemma transformed_block_sorted:
  assumes c: "std_sort_contract std_sort"
  shows "sorted_wrt category_then_key (transformed_block std_sort lines)"
proof -
  obtain ibegin iend where f: "findIncludes lines = (ibegin, iend)" by (cases "findIncludes lines")
  show ?thesis
  proof (cases "ibegin < iend")
    case False
    then show ?thesis by (simp add: transformed_block_def f surviving_def)
  next
    case True
    from c f True obtain pre l blk rest where
      b: "ibegin = length pre + 1" and e: "iend = length pre + 1 + length blk"
      and s: "sort_range std_sort ibegin iend (deleteEmptyLines ibegin iend lines) =
         pre @ l # std_sort (map blank_to_deleted blk) @ rest"
      by (rule formatted_structure)
    let ?sorted = "std_sort (map blank_to_deleted blk)"
    have len: "length ?sorted = length blk"
      by (simp add: std_sort_length [OF c])
    have tb: "transformed_block std_sort lines = surviving ?sorted"
      unfolding transformed_block_def f by (simp add: s) (simp add: b e len)
    have "sorted_wrt (\<lambda>a b. \<not> cmp b a) ?sorted"
      using c by (simp add: std_sort_contract_def)
    then have "sorted_wrt (\<lambda>a b. \<not> cmp b a) (surviving ?sorted)"
      unfolding surviving_def by (rule sorted_wrt_filter)
    then have "sorted_wrt category_then_key (surviving ?sorted)"
      by (rule sorted_wrt_mono_rel [rotated]) (simp add: surviving_def category_then_key_iff)
    then show ?thesis by (simp add: tb)
  qed
qed

lemma tie_free_iff:
  "tie_free xs \<longleftrightarrow> (\<forall>x\<in>set xs. \<forall>y\<in>set xs. cmp x y \<or> cmp y x \<or> x = y)"
  by (simp add: tie_free_def list_all_iff)

lemma sorted_unique:
  "sorted_wrt (\<lambda>a b. \<not> cmp b a) xs \<Longrightarrow> sorted_wrt (\<lambda>a b. \<not> cmp b a) ys \<Longrightarrow>
   mset xs = mset ys \<Longrightarrow> tie_free xs \<Longrightarrow> xs = ys"
proof (induction xs arbitrary: ys)
  case Nil
  then show ?case by simp
next
  case (Cons x xs)
  from Cons.prems(3) obtain y ys' where ys: "ys = y # ys'"
    by (cases ys) auto
  have xy: "x = y"
  proof (rule ccontr)
    assume ne: "x \<noteq> y"
    have "x \<in> set ys" using Cons.prems(3) by (metis list.set_intros(1) set_mset_mset)
    with ne ys have "x \<in> set ys'" by simp
    then have 1: "\<not> cmp x y" using Cons.prems(2) ys by simp
    have "y \<in> set (x # xs)" using Cons.prems(3) ys by (metis list.set_intros(1) set_mset_mset)
    with ne have "y \<in> set xs" by simp
    then have 2: "\<not> cmp y x" using Cons.prems(1) by simp
    from Cons.prems(4) \<open>y \<in> set xs\<close> have "cmp x y \<or> cmp y x \<or> x = y"
      by (simp add: tie_free_iff)
    with 1 2 ne show False by simp
  qed
  have "tie_free xs" using Cons.prems(4) by (simp add: tie_free_iff)
  moreover have "mset xs = mset ys'" using Cons.prems(3) ys xy by simp
  ultimately have "xs = ys'" using Cons.prems(1,2) ys by (intro Cons.IH) simp_all
  with xy ys show ?case by simp
qed

lemma std_sort_unique:
  assumes "std_sort_contract std_sort" and "std_sort_contract std_sort'" and "tie_free xs"
  shows "std_sort xs = std_sort' xs"
proof -
  have m: "mset (std_sort xs) = mset (std_sort' xs)"
    using assms(1,2) by (simp add: std_sort_contract_def)
  have "tie_free (std_sort xs)"
    using assms(3) std_sort_set [OF assms(1), of xs] by (simp add: tie_free_iff)
  with assms(1,2) m show ?thesis
    by (intro sorted_unique) (simp_all add: std_sort_contract_def)
qed

lemma surviving_blank_to_deleted:
  "surviving (map blank_to_deleted blk) =
     filter (\<lambda>l. \<not> list_all isspace l \<and> l \<noteq> g_deleted_line) blk"
  by (induction blk) (auto simp: surviving_def blank_to_deleted_def)

lemma sentinel_not_blank: "\<not> list_all isspace g_deleted_line"
  by (simp add: g_deleted_line_def isspace_def)

lemma transformed_block_eq:
  assumes c: "std_sort_contract std_sort" and f: "findIncludes lines = (ibegin, iend)"
  shows "transformed_block std_sort lines =
     surviving (std_sort (map blank_to_deleted (take (iend - ibegin) (drop ibegin lines))))"
proof (cases "ibegin < iend")
  case False
  then have "surviving (std_sort (map blank_to_deleted (take (iend - ibegin) (drop ibegin lines)))) = []"
    using std_sort_length [OF c, of "[]"] by (simp add: surviving_def)
  with False show ?thesis by (simp add: transformed_block_def f surviving_def)
next
  case True
  from c f True obtain pre l blk rest where
    L: "lines = pre @ l # blk @ rest"
    and b: "ibegin = length pre + 1" and e: "iend = length pre + 1 + length blk"
    and s: "sort_range std_sort ibegin iend (deleteEmptyLines ibegin iend lines) =
       pre @ l # std_sort (map blank_to_deleted blk) @ rest"
    by (rule formatted_structure)
  have len: "length (std_sort (map blank_to_deleted blk)) = length blk"
    by (simp add: std_sort_length [OF c])
  have "transformed_block std_sort lines = surviving (std_sort (map blank_to_deleted blk))"
    unfolding transformed_block_def f by (simp add: s) (simp add: b e len)
  moreover have "take (iend - ibegin) (drop ibegin lines) = blk"
    by (simp add: L b e)
  ultimately show ?thesis by simp
qed

lemma transformed_block_mset:
  assumes c: "std_sort_contract std_sort" and f: "findIncludes lines = (ibegin, iend)"
  shows "mset (transformed_block std_sort lines) =
     mset (filter (\<lambda>l. \<not> list_all isspace l \<and> l \<noteq> g_deleted_line)
            (take (iend - ibegin) (drop ibegin lines)))"
proof -
  let ?blk = "take (iend - ibegin) (drop ibegin lines)"
  have "mset (surviving (std_sort (map blank_to_deleted ?blk))) =
      filter_mset (\<lambda>l. l \<noteq> g_deleted_line) (mset (std_sort (map blank_to_deleted ?blk)))"
    by (simp add: surviving_def)
  also have "\<dots> = filter_mset (\<lambda>l. l \<noteq> g_deleted_line) (mset (map blank_to_deleted ?blk))"
    using c by (simp add: std_sort_contract_def)
  also have "\<dots> = mset (surviving (map blank_to_deleted ?blk))"
    by (simp add: surviving_def)
  finally show ?thesis
    by (simp add: transformed_block_eq [OF c f] surviving_blank_to_deleted)
qed

lemma transformed_block_not_blank:
  assumes c: "std_sort_contract std_sort"
  shows "list_all (\<lambda>line. \<not> list_all isspace line) (transformed_block std_sort lines)"
proof -
  obtain ibegin iend where f: "findIncludes lines = (ibegin, iend)" by (cases "findIncludes lines")
  have "set (transformed_block std_sort lines) =
      set (filter (\<lambda>l. \<not> list_all isspace l \<and> l \<noteq> g_deleted_line)
            (take (iend - ibegin) (drop ibegin lines)))"
    using transformed_block_mset [OF c f] by (metis set_mset_mset)
  then show ?thesis by (simp add: list_all_iff)
qed

lemma transformed_block_any_sort:
  assumes "std_sort_contract std_sort" and "std_sort_contract std_sort'"
    and "findIncludes lines = (ibegin, iend)"
    and "tie_free (map blank_to_deleted (take (iend - ibegin) (drop ibegin lines)))"
  shows "transformed_block std_sort lines = transformed_block std_sort' lines"
  using std_sort_unique [OF assms(1,2,4)]
  by (simp add: transformed_block_eq [OF assms(1,3)] transformed_block_eq [OF assms(2,3)])

lemma separated_without_blank:
  "[] \<notin> set xs \<Longrightarrow> filter (\<lambda>l. l \<noteq> []) (separated xs) = xs"
  by (induction xs rule: separated.induct) auto

section \<open>The functions of the program and the notions of the spec\<close>

lemma isspace_iff: "isspace ch \<longleftrightarrow> ch \<in> set whitespace_chars"
  by (auto simp: isspace_def whitespace_chars_def)

lemma removeSpaces_filter:
  "removeSpaces line = filter (\<lambda>ch. ch \<notin> set whitespace_chars) line"
  unfolding removeSpaces_def by (rule filter_cong) (simp_all add: isspace_iff)

lemma string_find_char:
  "string_find s [c] =
     (if c \<in> set s then Some (length (takeWhile (\<lambda>ch. ch \<noteq> c) s)) else None)"
  by (induction s) auto

lemma removeUserModuleName_key:
  "removeUserModuleName (removeSpaces line) = import_path_key line"
proof -
  have d: "removeUserModuleName s =
      (if CHR 0x22 \<in> set s then dropWhile (\<lambda>ch. ch \<noteq> CHR 0x22) s else s)" for s
    by (simp add: removeUserModuleName_def string_find_char dropWhile_eq_drop)
  show ?thesis
    unfolding removeSpaces_filter d import_path_key_def Let_def ..
qed

lemma moduleType_spec_category: "moduleType line = spec_category line"
proof -
  have a: "list_all isspace line \<longleftrightarrow> list_all (\<lambda>ch. ch \<in> set whitespace_chars) line"
    by (simp add: list_all_iff isspace_iff)
  have e: "line = [] \<Longrightarrow> list_all isspace line" by simp
  show ?thesis
    unfolding moduleType_def isStdLibModule_def isThirdPartyModule_def isPlatformModule_def
      string_find_contains string_find_Some_0_iff spec_category_def
      removeSpaces_filter [symmetric] a [symmetric]
    using e by auto
qed

lemma ModuleType_value_spec_rank: "ModuleType_value t = spec_rank t"
  by (cases t) simp_all



section \<open>Reading back what was written\<close>













section \<open>The batch loop\<close>

lemma m_path_formatFile: "m_path (fst (formatFile std_sort fs path)) = path"
  by (simp add: formatFile_def Let_def split: prod.splits)

lemma format_entries_paths:
  "map m_path (fst (format_entries std_sort extension entries (result, fs))) =
     map m_path result @ filter (\<lambda>p. extension p = ''.go'') entries"
proof (induction entries arbitrary: result fs)
  case Nil
  then show ?case by simp
next
  case (Cons p ps)
  show ?case
  proof (cases "extension p = ''.go''")
    case True
    obtain r fs' where rf: "formatFile std_sort fs p = (r, fs')"
      by (cases "formatFile std_sort fs p")
    then have "m_path r = p"
      using m_path_formatFile [of std_sort fs p] by simp
    with True rf Cons.IH [of "result @ [r]" fs'] show ?thesis by simp
  next
    case False
    with Cons.IH [of result fs] show ?thesis by simp
  qed
qed

section \<open>The classifier and the comparator\<close>

text \<open>
  Claim C6.  \<open>moduleType\<close> gives every line one of the four categories, by rules in
  a fixed precedence: ThirdParty when the line contains one of the four quoted host
  prefixes; otherwise Platform when it contains the quoted platform prefix; otherwise
  StdLib when the line is neither empty nor whitespace only, is not the sentinel, and
  does not begin with two slashes once its whitespace is removed; otherwise None.  The
  category depends on the text of the line alone.
\<close>

theorem moduleType_rules:
  "moduleType str =
     (if sublist ''\"github.com/'' str \<or> sublist ''\"gopkg.in/'' str \<or>
         sublist ''\"golang.org/'' str \<or> sublist ''\"pault.ag/'' str then ThirdParty
      else if sublist ''\"platform/'' str then Platform
      else if str \<noteq> [] \<and> \<not> list_all isspace str \<and> str \<noteq> g_deleted_line \<and>
              \<not> prefix ''//'' (removeSpaces str) then StdLib
      else None')"
  unfolding moduleType_def isStdLibModule_def isThirdPartyModule_def isPlatformModule_def
    string_find_contains string_find_Some_0_iff
  by simp

theorem moduleType_rules_witness:
  "moduleType ''x \"gopkg.in/platform/y\"'' = ThirdParty \<and>
   moduleType ''\"platform/y\"'' = Platform \<and>
   moduleType ''  \"fmt\"'' = StdLib \<and>
   moduleType '' // \"fmt\"'' = None' \<and>
   moduleType g_deleted_line = None' \<and>
   moduleType ''  '' = None'"
proof -
  have "moduleType ''x \"gopkg.in/platform/y\"'' = ThirdParty"
    using moduleType_rules [of "''x \"gopkg.in/platform/y\"''"]
    by (simp add: sublist_code)
  moreover have "moduleType ''\"platform/y\"'' = Platform"
    using moduleType_rules [of "''\"platform/y\"''"]
    by (simp add: sublist_code)
  moreover have "moduleType ''  \"fmt\"'' = StdLib"
    using moduleType_rules [of "''  \"fmt\"''"]
    by (simp add: sublist_code removeSpaces_def isspace_def g_deleted_line_def)
  moreover have "moduleType '' // \"fmt\"'' = None'"
    using moduleType_rules [of "'' // \"fmt\"''"]
    by (simp add: sublist_code removeSpaces_def isspace_def g_deleted_line_def)
  moreover have "moduleType g_deleted_line = None'"
    using moduleType_rules [of g_deleted_line]
    by (simp add: sublist_code removeSpaces_def isspace_def g_deleted_line_def)
  moreover have "moduleType ''  '' = None'"
    using moduleType_rules [of "''  ''"]
    by (simp add: sublist_code removeSpaces_def isspace_def g_deleted_line_def)
  ultimately show ?thesis by simp
qed

text \<open>
  Claim C8.  Under \<open>cmp\<close> the sentinel is not less than any line and every other line
  is less than the sentinel; the sentinel is not less than itself.  \<open>cmp\<close> is a strict
  weak ordering: irreflexive, transitive, and with a transitive incomparability.
\<close>

theorem cmp_strict_weak_ordering:
  "(x \<noteq> g_deleted_line \<longrightarrow> \<not> cmp g_deleted_line x \<and> cmp x g_deleted_line) \<and>
   \<not> cmp g_deleted_line g_deleted_line \<and>
   \<not> cmp a a \<and>
   (cmp a b \<and> cmp b c \<longrightarrow> cmp a c) \<and>
   (\<not> cmp a b \<and> \<not> cmp b a \<and> \<not> cmp b c \<and> \<not> cmp c b \<longrightarrow> \<not> cmp a c \<and> \<not> cmp c a)"
  unfolding cmp_def Let_def
  by (auto simp: ModuleType_value_inj split: if_splits)

theorem cmp_strict_weak_ordering_witness:
  "''\"fmt\"'' \<noteq> g_deleted_line \<and>
   \<not> cmp g_deleted_line ''\"fmt\"'' \<and> cmp ''\"fmt\"'' g_deleted_line \<and>
   cmp ''\"fmt\"'' ''\"os\"'' \<and> cmp ''\"os\"'' ''\"platform/z\"'' \<and>
   cmp ''\"fmt\"'' ''\"platform/z\"'' \<and>
   \<not> cmp ''a \"fmt\"'' ''b \"fmt\"'' \<and> \<not> cmp ''b \"fmt\"'' ''a \"fmt\"'' \<and>
   \<not> cmp ''b \"fmt\"'' ''  \"fmt\"'' \<and> \<not> cmp ''  \"fmt\"'' ''b \"fmt\"'' \<and>
   \<not> cmp ''a \"fmt\"'' ''  \"fmt\"'' \<and> \<not> cmp ''  \"fmt\"'' ''a \"fmt\"''"
proof -
  have ne: "''\"fmt\"'' \<noteq> g_deleted_line" by (simp add: g_deleted_line_def)
  have t1: "cmp ''\"fmt\"'' ''\"os\"''" by code_simp
  have t2: "cmp ''\"os\"'' ''\"platform/z\"''" by code_simp
  have e1: "\<not> cmp ''a \"fmt\"'' ''b \"fmt\"''" by code_simp
  have e2: "\<not> cmp ''b \"fmt\"'' ''a \"fmt\"''" by code_simp
  have e3: "\<not> cmp ''b \"fmt\"'' ''  \"fmt\"''" by code_simp
  have e4: "\<not> cmp ''  \"fmt\"'' ''b \"fmt\"''" by code_simp
  have A: "\<not> cmp g_deleted_line ''\"fmt\"'' \<and> cmp ''\"fmt\"'' g_deleted_line \<and>
      cmp ''\"fmt\"'' ''\"platform/z\"''"
    using cmp_strict_weak_ordering
      [of "''\"fmt\"''" "''\"fmt\"''" "''\"os\"''" "''\"platform/z\"''"] ne t1 t2
    by simp
  have B: "\<not> cmp ''a \"fmt\"'' ''  \"fmt\"'' \<and> \<not> cmp ''  \"fmt\"'' ''a \"fmt\"''"
    using cmp_strict_weak_ordering
      [of "''\"fmt\"''" "''a \"fmt\"''" "''b \"fmt\"''" "''  \"fmt\"''"] e1 e2 e3 e4
    by simp
  from ne t1 t2 e1 e2 e3 e4 A B show ?thesis by simp
qed

text \<open>
  Claim C10.  On a line without a quotation mark \<open>removeUserModuleName\<close> returns its
  argument, so two such lines of one category, neither the sentinel, are compared by
  their whole text with the whitespace removed.
\<close>

theorem removeUserModuleName_without_quote:
  "CHR 0x22 \<notin> set lhs \<Longrightarrow>
     removeUserModuleName lhs = lhs \<and>
     removeUserModuleName (removeSpaces lhs) = removeSpaces lhs \<and>
     (\<forall>rhs. CHR 0x22 \<notin> set rhs \<and> lhs \<noteq> g_deleted_line \<and> rhs \<noteq> g_deleted_line \<and>
            moduleType lhs = moduleType rhs \<longrightarrow>
            cmp lhs rhs = (removeSpaces lhs < removeSpaces rhs))"
  by (simp add: removeUserModuleName_def string_find_no_char cmp_def removeSpaces_def)

theorem removeUserModuleName_without_quote_witness:
  "CHR 0x22 \<notin> set ''// b'' \<and> CHR 0x22 \<notin> set ''//a'' \<and>
   ''// b'' \<noteq> g_deleted_line \<and> ''//a'' \<noteq> g_deleted_line \<and>
   moduleType ''// b'' = moduleType ''//a'' \<and>
   removeUserModuleName ''// b'' = ''// b'' \<and>
   removeUserModuleName (removeSpaces ''// b'') = removeSpaces ''// b'' \<and>
   cmp ''// b'' ''//a'' = (removeSpaces ''// b'' < removeSpaces ''//a'') \<and>
   \<not> cmp ''// b'' ''//a''"
proof -
  have q1: "CHR 0x22 \<notin> set ''// b''" by simp
  have q2: "CHR 0x22 \<notin> set ''//a''" by simp
  have n1: "''// b'' \<noteq> g_deleted_line" by (simp add: g_deleted_line_def)
  have n2: "''//a'' \<noteq> g_deleted_line" by (simp add: g_deleted_line_def)
  have m: "moduleType ''// b'' = moduleType ''//a''" by code_simp
  have v: "\<not> removeSpaces ''// b'' < removeSpaces ''//a''" by code_simp
  have "removeUserModuleName ''// b'' = ''// b'' \<and>
     removeUserModuleName (removeSpaces ''// b'') = removeSpaces ''// b'' \<and>
     cmp ''// b'' ''//a'' = (removeSpaces ''// b'' < removeSpaces ''//a'')"
    using removeUserModuleName_without_quote [OF q1] q2 n1 n2 m by simp
  with q1 q2 n1 n2 m v show ?thesis by simp
qed

section \<open>The block locator\<close>

text \<open>
  Claim C5.  \<open>findIncludes\<close> returns as begin the index after the first line that
  reads \<open>import(\<close> once whitespace is removed and the text is cut at the first two
  slashes, or the length of the sequence when there is no such line; as end the index
  of the first line from begin on that reads \<open>)\<close> in the same way, or the length of
  the sequence.  Begin is at most end.  When they are equal and the sequence is not
  empty, \<open>formatFile\<close> reports \<open>no includes found\<close> and leaves the file system as it
  was.  (An empty sequence never reaches \<open>findIncludes\<close>: see the counterexample.)
\<close>

theorem findIncludes_locates:
  "findIncludes lines = (ibegin, iend) \<Longrightarrow>
     ((\<exists>k<length lines. opens (lines ! k) \<and> (\<forall>j<k. \<not> opens (lines ! j)) \<and> ibegin = k + 1) \<or>
      ((\<forall>j<length lines. \<not> opens (lines ! j)) \<and> ibegin = length lines)) \<and>
     ((iend < length lines \<and> closes (lines ! iend)) \<or> iend = length lines) \<and>
     (\<forall>j. ibegin \<le> j \<and> j < iend \<longrightarrow> \<not> closes (lines ! j)) \<and>
     ibegin \<le> iend \<and>
     (\<forall>std_sort fs path. readFile fs path = lines \<and> lines \<noteq> [] \<and> ibegin = iend \<longrightarrow>
        formatFile std_sort fs path =
          (\<lparr>m_path = path, m_result_message = ''no includes found''\<rparr>, fs))"
proof (cases lines rule: findIncludes_cases)
  case none
  assume f: "findIncludes lines = (ibegin, iend)"
  with none have b: "ibegin = length lines" and e: "iend = length lines" by simp_all
  have "\<forall>j<length lines. \<not> opens (lines ! j)" using none(1) by simp
  with b e f show ?thesis by (auto simp: formatFile_def)
next
  case (block pre l blk rest)
  assume f: "findIncludes lines = (ibegin, iend)"
  with block have b: "ibegin = length pre + 1" and e: "iend = length pre + 1 + length blk"
    by simp_all
  have 1: "length pre < length lines" "opens (lines ! length pre)"
    "\<forall>j<length pre. \<not> opens (lines ! j)"
    using block(1-3) by (auto simp: nth_append)
  have 2: "(iend < length lines \<and> closes (lines ! iend)) \<or> iend = length lines"
  proof (cases rest)
    case Nil
    then show ?thesis using block(1) e by simp
  next
    case (Cons r rs)
    then have "lines ! iend = r"
      using block(1) e by (simp add: nth_append)
    then show ?thesis using block(1,5) e Cons by simp
  qed
  have 3: "\<forall>j. ibegin \<le> j \<and> j < iend \<longrightarrow> \<not> closes (lines ! j)"
  proof (intro allI impI)
    fix j assume j: "ibegin \<le> j \<and> j < iend"
    then have "lines ! j = blk ! (j - ibegin)"
      using block(1) b e by (auto simp: nth_append nth_Cons')
    moreover have "j - ibegin < length blk" using j b e by auto
    ultimately show "\<not> closes (lines ! j)" using block(4) by simp
  qed
  from 1 2 3 b e f show ?thesis by (auto simp: formatFile_def)
qed

theorem findIncludes_locates_witness:
  "findIncludes example_block = (2, 6) \<and>
   opens (example_block ! 1) \<and> closes (example_block ! 6) \<and>
   \<not> closes (example_block ! 3) \<and>
   findIncludes example_single = (2, 2) \<and>
   readFile [''b.go'' \<mapsto> endl_terminated example_single] ''b.go'' = example_single \<and>
   example_single \<noteq> [] \<and>
   formatFile insertion_sort [''b.go'' \<mapsto> endl_terminated example_single] ''b.go'' =
     (\<lparr>m_path = ''b.go'', m_result_message = ''no includes found''\<rparr>,
      [''b.go'' \<mapsto> endl_terminated example_single]) \<and>
   findIncludes example_commented = (1, 2) \<and>
   opens (example_commented ! 0) \<and> closes (example_commented ! 2) \<and>
   \<not> closes (example_commented ! 1)"
proof -
  have fa: "findIncludes example_block = (2, 6)" by code_simp
  have fb: "findIncludes example_single = (2, 2)" by code_simp
  have fc: "findIncludes example_commented = (1, 2)" by code_simp
  have rb: "readFile [''b.go'' \<mapsto> endl_terminated example_single] ''b.go'' = example_single"
    by (simp add: readFile_def endl_terminated_def example_single_def)
  have nb: "example_single \<noteq> []" by (simp add: example_single_def)
  have la: "length example_block = 8" by (simp add: example_block_def)
  have lc: "length example_commented = 3" by (simp add: example_commented_def)
  from findIncludes_locates [OF fa] la
  have A: "opens (example_block ! 1) \<and> closes (example_block ! 6) \<and> \<not> closes (example_block ! 3)"
    by auto
  from findIncludes_locates [OF fb] rb nb
  have B: "formatFile insertion_sort [''b.go'' \<mapsto> endl_terminated example_single] ''b.go'' =
     (\<lparr>m_path = ''b.go'', m_result_message = ''no includes found''\<rparr>,
      [''b.go'' \<mapsto> endl_terminated example_single])"
    by simp
  from findIncludes_locates [OF fc] lc
  have C: "opens (example_commented ! 0) \<and> closes (example_commented ! 2) \<and>
      \<not> closes (example_commented ! 1)"
    by auto
  from fa fb fc rb nb A B C show ?thesis by simp
qed

text \<open>
  For a file without a line, begin and end are both 0, and the report is
  \<open>failed to read from file\<close>: \<open>formatFile\<close> tests for the empty sequence first.
\<close>

theorem findIncludes_empty_file_counterexample:
  "readFile [''a.go'' \<mapsto> []] ''a.go'' = [] \<and>
   findIncludes [] = (0, 0) \<and>
   formatFile insertion_sort [''a.go'' \<mapsto> []] ''a.go'' =
     (\<lparr>m_path = ''a.go'', m_result_message = ''failed to read from file''\<rparr>,
      [''a.go'' \<mapsto> []]) \<and>
   ''failed to read from file'' \<noteq> ''no includes found''"
  by (simp add: readFile_def formatFile_def findIncludes_def findIncludes_begin.simps
      findIncludes_end.simps)

text \<open>
  Claim C9.  For a file with a non-empty block, \<open>findIncludes\<close> returns the same
  bounds after \<open>deleteEmptyLines\<close> and after the sort of the range as before: the
  lines before begin and from end on are unchanged, no line of the range reads \<open>)\<close>,
  and the sentinel reads neither \<open>import(\<close> nor \<open>)\<close>.
\<close>

theorem findIncludes_invariant:
  "std_sort_contract std_sort \<Longrightarrow> findIncludes lines = (ibegin, iend) \<Longrightarrow> ibegin < iend \<Longrightarrow>
     findIncludes (deleteEmptyLines ibegin iend lines) = (ibegin, iend) \<and>
     findIncludes (sort_range std_sort ibegin iend (deleteEmptyLines ibegin iend lines)) =
       (ibegin, iend) \<and>
     take ibegin (sort_range std_sort ibegin iend (deleteEmptyLines ibegin iend lines)) =
       take ibegin lines \<and>
     drop iend (sort_range std_sort ibegin iend (deleteEmptyLines ibegin iend lines)) =
       drop iend lines \<and>
     list_all (\<lambda>l. \<not> closes l)
       (take (iend - ibegin)
          (drop ibegin (sort_range std_sort ibegin iend (deleteEmptyLines ibegin iend lines)))) \<and>
     \<not> opens g_deleted_line \<and> \<not> closes g_deleted_line"
proof -
  assume c: "std_sort_contract std_sort" and f: "findIncludes lines = (ibegin, iend)"
    and lt: "ibegin < iend"
  from c f lt obtain pre l blk rest where
    L: "lines = pre @ l # blk @ rest"
    and P: "\<forall>l\<in>set pre. \<not> opens l" "opens l" "\<forall>l\<in>set blk. \<not> closes l"
      "rest = [] \<or> closes (hd rest)"
    and b: "ibegin = length pre + 1" and e: "iend = length pre + 1 + length blk"
    and d: "deleteEmptyLines ibegin iend lines = pre @ l # map blank_to_deleted blk @ rest"
    and s: "sort_range std_sort ibegin iend (deleteEmptyLines ibegin iend lines) =
       pre @ l # std_sort (map blank_to_deleted blk) @ rest"
    by (rule formatted_structure)
  have n1: "\<forall>l\<in>set (map blank_to_deleted blk). \<not> closes l"
    using P(3) by (simp add: blank_to_deleted_not_closes)
  then have n2: "\<forall>l\<in>set (std_sort (map blank_to_deleted blk)). \<not> closes l"
    by (simp add: std_sort_set [OF c])
  have len: "length (std_sort (map blank_to_deleted blk)) = length blk"
    by (simp add: std_sort_length [OF c])
  have 1: "findIncludes (deleteEmptyLines ibegin iend lines) = (ibegin, iend)"
    using findIncludes_block [OF P(1,2) n1 P(4)] by (subst d) (simp add: b e)
  have 2: "findIncludes (sort_range std_sort ibegin iend (deleteEmptyLines ibegin iend lines)) =
       (ibegin, iend)"
    using findIncludes_block [OF P(1,2) n2 P(4)] by (subst s) (simp add: b e len)
  have 3: "take ibegin (sort_range std_sort ibegin iend (deleteEmptyLines ibegin iend lines)) =
       take ibegin lines"
    by (subst s) (simp add: L b)
  have 4: "drop iend (sort_range std_sort ibegin iend (deleteEmptyLines ibegin iend lines)) =
       drop iend lines"
    by (subst s) (simp add: L e len)
  have 5: "list_all (\<lambda>l. \<not> closes l)
       (take (iend - ibegin)
          (drop ibegin (sort_range std_sort ibegin iend (deleteEmptyLines ibegin iend lines))))"
    using n2 by (subst s) (simp add: b e len list_all_iff)
  from 1 2 3 4 5 show ?thesis by (simp add: sentinel_not_delimiter)
qed

theorem findIncludes_invariant_witness:
  "std_sort_contract insertion_sort \<and> findIncludes example_block = (2, 6) \<and>
   findIncludes (deleteEmptyLines 2 6 example_block) = (2, 6) \<and>
   findIncludes (sort_range insertion_sort 2 6 (deleteEmptyLines 2 6 example_block)) = (2, 6) \<and>
   take 2 (sort_range insertion_sort 2 6 (deleteEmptyLines 2 6 example_block)) =
     take 2 example_block \<and>
   drop 6 (sort_range insertion_sort 2 6 (deleteEmptyLines 2 6 example_block)) =
     drop 6 example_block \<and>
   sort_range insertion_sort 2 6 (deleteEmptyLines 2 6 example_block) \<noteq> example_block"
proof -
  have fa: "findIncludes example_block = (2, 6)" by code_simp
  have lt: "(2::nat) < 6" by simp
  have ne: "sort_range insertion_sort 2 6 (deleteEmptyLines 2 6 example_block) \<noteq> example_block"
    by code_simp
  from findIncludes_invariant [OF insertion_sort_contract fa lt] fa ne insertion_sort_contract
  show ?thesis by simp
qed

section \<open>The rewritten file\<close>

text \<open>
  Claim C1.  When \<open>formatFile\<close> reports \<open>done\<close>, the file written holds, between the
  lines before the block and the lines from its end on, the non-removed lines of the
  transformed block with the separators between them; and of any two of these lines
  the earlier one has the lower rank of category when the categories differ
  (StdLib 0, Platform 1, ThirdParty 2, None 3), and otherwise a path key that is not
  greater than the later one's.  Category, rank and key are the spec's here, stated
  without the functions of the program: the key is the text of the line without its
  whitespace, from the first quotation mark on.
\<close>

theorem formatFile_block_ordered:
  "std_sort_contract std_sort \<Longrightarrow>
   m_result_message (fst (formatFile std_sort fs path)) = ''done'' \<Longrightarrow>
     snd (formatFile std_sort fs path) path =
       Some (endl_terminated
         (surviving (take (fst (findIncludes (readFile fs path))) (readFile fs path)) @
          separated (transformed_block std_sort (readFile fs path)) @
          surviving (drop (snd (findIncludes (readFile fs path))) (readFile fs path)))) \<and>
     (\<forall>i j. i < j \<and> j < length (transformed_block std_sort (readFile fs path)) \<longrightarrow>
        (let earlier = transformed_block std_sort (readFile fs path) ! i;
             later = transformed_block std_sort (readFile fs path) ! j
         in earlier \<noteq> g_deleted_line \<and> later \<noteq> g_deleted_line \<and>
            (if spec_category earlier \<noteq> spec_category later
             then spec_rank (spec_category earlier) < spec_rank (spec_category later)
             else import_path_key earlier \<le> import_path_key later)))"
proof (intro conjI allI impI)
  assume c: "std_sort_contract std_sort"
    and d: "m_result_message (fst (formatFile std_sort fs path)) = ''done''"
  let ?lines = "readFile fs path"
  let ?block = "transformed_block std_sort ?lines"
  have f: "findIncludes ?lines = (fst (findIncludes ?lines), snd (findIncludes ?lines))"
    by simp
  from d have lt: "fst (findIncludes ?lines) < snd (findIncludes ?lines)"
    by (simp add: formatFile_done_iff [OF refl f])
  show "snd (formatFile std_sort fs path) path =
       Some (endl_terminated
         (surviving (take (fst (findIncludes ?lines)) ?lines) @ separated ?block @
          surviving (drop (snd (findIncludes ?lines)) ?lines)))"
    by (simp add: formatFile_done [OF c refl f lt])
  fix i j
  assume ij: "i < j \<and> j < length ?block"
  have "sorted_wrt category_then_key ?block"
    using c by (rule transformed_block_sorted)
  then have "category_then_key (?block ! i) (?block ! j)"
    using ij by (simp add: sorted_wrt_iff_nth_less)
  then have k: "if spec_category (?block ! i) \<noteq> spec_category (?block ! j)
      then spec_rank (spec_category (?block ! i)) < spec_rank (spec_category (?block ! j))
      else import_path_key (?block ! i) \<le> import_path_key (?block ! j)"
    unfolding category_then_key_def moduleType_spec_category ModuleType_value_spec_rank
      removeUserModuleName_key .
  have "\<forall>l\<in>set ?block. l \<noteq> g_deleted_line"
    by (auto simp: transformed_block_def surviving_def split: prod.splits)
  then have "?block ! i \<noteq> g_deleted_line" "?block ! j \<noteq> g_deleted_line"
    using ij by simp_all
  with k show "let earlier = ?block ! i; later = ?block ! j
       in earlier \<noteq> g_deleted_line \<and> later \<noteq> g_deleted_line \<and>
          (if spec_category earlier \<noteq> spec_category later
           then spec_rank (spec_category earlier) < spec_rank (spec_category later)
           else import_path_key earlier \<le> import_path_key later)"
    by (simp add: Let_def)
qed

theorem formatFile_block_ordered_witness:
  "std_sort_contract insertion_sort \<and>
   m_result_message (fst (formatFile insertion_sort example_fs ''a.go'')) = ''done'' \<and>
   transformed_block insertion_sort (readFile example_fs ''a.go'') =
     [CHR 0x09 # ''\"fmt\"'', CHR 0x09 # ''\"platform/z\"'', CHR 0x09 # ''\"github.com/x/y\"''] \<and>
   snd (formatFile insertion_sort example_fs ''a.go'') ''a.go'' =
     Some (endl_terminated
       ([''package x'', ''import (''] @
        [CHR 0x09 # ''\"fmt\"'', '''', CHR 0x09 # ''\"platform/z\"'', '''',
         CHR 0x09 # ''\"github.com/x/y\"''] @
        ['')'', ''func f() {}''])) \<and>
   spec_category (CHR 0x09 # ''\"fmt\"'') = StdLib \<and>
   spec_category (CHR 0x09 # ''\"platform/z\"'') = Platform \<and>
   spec_category (CHR 0x09 # ''\"github.com/x/y\"'') = ThirdParty \<and>
   spec_rank (spec_category (CHR 0x09 # ''\"fmt\"''))
     < spec_rank (spec_category (CHR 0x09 # ''\"platform/z\"'')) \<and>
   spec_rank (spec_category (CHR 0x09 # ''\"fmt\"''))
     < spec_rank (spec_category (CHR 0x09 # ''\"github.com/x/y\"'')) \<and>
   spec_rank (spec_category (CHR 0x09 # ''\"platform/z\"''))
     < spec_rank (spec_category (CHR 0x09 # ''\"github.com/x/y\"'')) \<and>
   m_result_message (fst (formatFile insertion_sort example_fs2 ''h.go'')) = ''done'' \<and>
   readFile example_fs2 ''h.go'' = example_alias_block \<and>
   transformed_block insertion_sort (readFile example_fs2 ''h.go'') =
     [''  \"fmt\"'', ''  z \"os\"'', ''  a \"strings\"'',
      ''  b \"platform/a\"'', ''  y \"platform/b\"''] \<and>
   spec_category ''  z \"os\"'' = StdLib \<and>
   spec_category ''  a \"strings\"'' = StdLib \<and>
   import_path_key ''  z \"os\"'' = ''\"os\"'' \<and>
   import_path_key ''  a \"strings\"'' = ''\"strings\"'' \<and>
   import_path_key ''  z \"os\"'' \<le> import_path_key ''  a \"strings\"'' \<and>
   spec_category ''  b \"platform/a\"'' = Platform \<and>
   spec_category ''  y \"platform/b\"'' = Platform \<and>
   import_path_key ''  b \"platform/a\"'' = ''\"platform/a\"'' \<and>
   import_path_key ''  y \"platform/b\"'' = ''\"platform/b\"'' \<and>
   import_path_key ''  b \"platform/a\"'' \<le> import_path_key ''  y \"platform/b\"''"
proof -
  have d: "m_result_message (fst (formatFile insertion_sort example_fs ''a.go'')) = ''done''"
    by code_simp
  have t: "transformed_block insertion_sort (readFile example_fs ''a.go'') =
     [CHR 0x09 # ''\"fmt\"'', CHR 0x09 # ''\"platform/z\"'', CHR 0x09 # ''\"github.com/x/y\"'']"
    by code_simp
  have b: "surviving (take (fst (findIncludes (readFile example_fs ''a.go'')))
       (readFile example_fs ''a.go'')) = [''package x'', ''import ('']"
    by code_simp
  have a: "surviving (drop (snd (findIncludes (readFile example_fs ''a.go'')))
       (readFile example_fs ''a.go'')) = ['')'', ''func f() {}'']"
    by code_simp
  have s: "separated
      [CHR 0x09 # ''\"fmt\"'', CHR 0x09 # ''\"platform/z\"'', CHR 0x09 # ''\"github.com/x/y\"''] =
      [CHR 0x09 # ''\"fmt\"'', '''', CHR 0x09 # ''\"platform/z\"'', '''',
       CHR 0x09 # ''\"github.com/x/y\"'']"
    by code_simp
  have c1: "spec_category (CHR 0x09 # ''\"fmt\"'') = StdLib" by code_simp
  have c2: "spec_category (CHR 0x09 # ''\"platform/z\"'') = Platform" by code_simp
  have c3: "spec_category (CHR 0x09 # ''\"github.com/x/y\"'') = ThirdParty" by code_simp
  note T = formatFile_block_ordered [OF insertion_sort_contract d, unfolded t b a s]
  from T have w: "snd (formatFile insertion_sort example_fs ''a.go'') ''a.go'' =
     Some (endl_terminated
       ([''package x'', ''import (''] @
        [CHR 0x09 # ''\"fmt\"'', '''', CHR 0x09 # ''\"platform/z\"'', '''',
         CHR 0x09 # ''\"github.com/x/y\"''] @
        ['')'', ''func f() {}'']))"
    by (rule conjunct1)
  note o = conjunct2 [OF T, rule_format]
  from o [of 0 1]
  have o1: "spec_rank (spec_category (CHR 0x09 # ''\"fmt\"''))
     < spec_rank (spec_category (CHR 0x09 # ''\"platform/z\"''))"
    by (simp add: Let_def c1 c2)
  from o [of 0 2]
  have o2: "spec_rank (spec_category (CHR 0x09 # ''\"fmt\"''))
     < spec_rank (spec_category (CHR 0x09 # ''\"github.com/x/y\"''))"
    by (simp add: Let_def c1 c3)
  from o [of 1 2]
  have o3: "spec_rank (spec_category (CHR 0x09 # ''\"platform/z\"''))
     < spec_rank (spec_category (CHR 0x09 # ''\"github.com/x/y\"''))"
    by (simp add: Let_def c2 c3)
  have dh: "m_result_message (fst (formatFile insertion_sort example_fs2 ''h.go'')) = ''done''"
    by code_simp
  have rh: "readFile example_fs2 ''h.go'' = example_alias_block" by code_simp
  have th: "transformed_block insertion_sort (readFile example_fs2 ''h.go'') =
     [''  \"fmt\"'', ''  z \"os\"'', ''  a \"strings\"'',
      ''  b \"platform/a\"'', ''  y \"platform/b\"'']"
    by code_simp
  have h1: "spec_category ''  z \"os\"'' = StdLib" by code_simp
  have h2: "spec_category ''  a \"strings\"'' = StdLib" by code_simp
  have h3: "spec_category ''  b \"platform/a\"'' = Platform" by code_simp
  have h4: "spec_category ''  y \"platform/b\"'' = Platform" by code_simp
  have k1: "import_path_key ''  z \"os\"'' = ''\"os\"''" by code_simp
  have k2: "import_path_key ''  a \"strings\"'' = ''\"strings\"''" by code_simp
  have k3: "import_path_key ''  b \"platform/a\"'' = ''\"platform/a\"''" by code_simp
  have k4: "import_path_key ''  y \"platform/b\"'' = ''\"platform/b\"''" by code_simp
  note H = formatFile_block_ordered [OF insertion_sort_contract dh, unfolded th]
  note oh = conjunct2 [OF H, rule_format]
  from oh [of 1 2]
  have p1: "import_path_key ''  z \"os\"'' \<le> import_path_key ''  a \"strings\"''"
    by (simp add: Let_def h1 h2)
  from oh [of 3 4]
  have p2: "import_path_key ''  b \"platform/a\"'' \<le> import_path_key ''  y \"platform/b\"''"
    by (simp add: Let_def h3 h4)
  from insertion_sort_contract d t w c1 c2 c3 o1 o2 o3 dh rh th h1 h2 k1 k2 p1 h3 h4 k3 k4 p2
  show ?thesis by (intro conjI)
qed

text \<open>
  Claim C2.  When \<open>formatFile\<close> reports \<open>done\<close>, the block of the file written is
  \<open>separated\<close> of the non-removed lines: one empty line between two consecutive lines
  exactly when their categories differ and neither is None, and no other line added.
  No non-removed line is empty or whitespace only, and the non-removed lines are the
  lines of the block read that are neither blank nor the sentinel, each as often as
  it was read.
\<close>

theorem formatFile_separators:
  "std_sort_contract std_sort \<Longrightarrow> readFile fs path = lines \<Longrightarrow>
   findIncludes lines = (ibegin, iend) \<Longrightarrow>
   m_result_message (fst (formatFile std_sort fs path)) = ''done'' \<Longrightarrow>
     snd (formatFile std_sort fs path) path =
       Some (endl_terminated
         (surviving (take ibegin lines) @ separated (transformed_block std_sort lines) @
          surviving (drop iend lines))) \<and>
     list_all (\<lambda>line. \<not> list_all isspace line) (transformed_block std_sort lines) \<and>
     mset (transformed_block std_sort lines) =
       mset (filter (\<lambda>l. \<not> list_all isspace l \<and> l \<noteq> g_deleted_line)
              (take (iend - ibegin) (drop ibegin lines)))"
proof -
  assume c: "std_sort_contract std_sort" and r: "readFile fs path = lines"
    and f: "findIncludes lines = (ibegin, iend)"
    and d: "m_result_message (fst (formatFile std_sort fs path)) = ''done''"
  from d have "ibegin < iend"
    by (simp add: formatFile_done_iff [OF r f])
  then show ?thesis
    by (simp add: formatFile_done [OF c r f] transformed_block_not_blank [OF c]
        transformed_block_mset [OF c f])
qed

theorem formatFile_separators_witness:
  "std_sort_contract insertion_sort \<and>
   readFile example_fs ''a.go'' = example_block \<and>
   findIncludes example_block = (2, 6) \<and>
   m_result_message (fst (formatFile insertion_sort example_fs ''a.go'')) = ''done'' \<and>
   snd (formatFile insertion_sort example_fs ''a.go'') ''a.go'' =
     Some (endl_terminated
       ([''package x'', ''import (''] @
        [CHR 0x09 # ''\"fmt\"'', '''', CHR 0x09 # ''\"platform/z\"'', '''',
         CHR 0x09 # ''\"github.com/x/y\"''] @
        ['')'', ''func f() {}''])) \<and>
   list_all (\<lambda>line. \<not> list_all isspace line)
     [CHR 0x09 # ''\"fmt\"'', CHR 0x09 # ''\"platform/z\"'', CHR 0x09 # ''\"github.com/x/y\"'']"
proof -
  have r: "readFile example_fs ''a.go'' = example_block" by code_simp
  have f: "findIncludes example_block = (2, 6)" by code_simp
  have d: "m_result_message (fst (formatFile insertion_sort example_fs ''a.go'')) = ''done''"
    by code_simp
  have t: "transformed_block insertion_sort example_block =
     [CHR 0x09 # ''\"fmt\"'', CHR 0x09 # ''\"platform/z\"'', CHR 0x09 # ''\"github.com/x/y\"'']"
    by code_simp
  have b: "surviving (take 2 example_block) = [''package x'', ''import ('']"
    by code_simp
  have a: "surviving (drop 6 example_block) = ['')'', ''func f() {}'']"
    by code_simp
  have s: "separated
      [CHR 0x09 # ''\"fmt\"'', CHR 0x09 # ''\"platform/z\"'', CHR 0x09 # ''\"github.com/x/y\"''] =
      [CHR 0x09 # ''\"fmt\"'', '''', CHR 0x09 # ''\"platform/z\"'', '''',
       CHR 0x09 # ''\"github.com/x/y\"'']"
    by code_simp
  note T = formatFile_separators [OF insertion_sort_contract r f d, unfolded t b a s]
  from T have w: "snd (formatFile insertion_sort example_fs ''a.go'') ''a.go'' =
     Some (endl_terminated
       ([''package x'', ''import (''] @
        [CHR 0x09 # ''\"fmt\"'', '''', CHR 0x09 # ''\"platform/z\"'', '''',
         CHR 0x09 # ''\"github.com/x/y\"''] @
        ['')'', ''func f() {}'']))"
    by (rule conjunct1)
  from T have n: "list_all (\<lambda>line. \<not> list_all isspace line)
     [CHR 0x09 # ''\"fmt\"'', CHR 0x09 # ''\"platform/z\"'', CHR 0x09 # ''\"github.com/x/y\"'']"
    by (rule conjunct1 [OF conjunct2])
  from insertion_sort_contract r f d w n show ?thesis by (intro conjI)
qed

text \<open>
  Claim C4.  Every line outside the block is to be written as it was read.  The file
  \<open>d.go\<close> holds the sentinel's text as a line of a raw string literal after its
  import block.  Whatever the library's sort does, \<open>formatFile\<close> writes the file
  without that line: the writer tests every line of the file against the sentinel,
  not only the lines of the block.
\<close>

theorem formatFile_drops_sentinel_outside_block:
  "std_sort_contract std_sort \<Longrightarrow>
     readFile example_fs ''d.go'' = example_sentinel \<and>
     findIncludes example_sentinel = (1, 3) \<and>
     example_sentinel ! 5 = g_deleted_line \<and>
     formatFile std_sort example_fs ''d.go'' =
       (\<lparr>m_path = ''d.go'', m_result_message = ''done''\<rparr>,
        example_fs(''d.go'' \<mapsto> endl_terminated
          [''import ('', ''\"fmt\"'', ''\"os\"'', '')'', ''const s = `'', ''`'']))"
proof -
  assume c: "std_sort_contract std_sort"
  have r: "readFile example_fs ''d.go'' = example_sentinel" by code_simp
  have f: "findIncludes example_sentinel = (1, 3)" by code_simp
  have lt: "(1::nat) < 3" by simp
  have s: "example_sentinel ! 5 = g_deleted_line" by code_simp
  have tf: "tie_free (map blank_to_deleted (take (3 - 1) (drop 1 example_sentinel)))"
    by code_simp
  have t: "transformed_block std_sort example_sentinel =
      transformed_block insertion_sort example_sentinel"
    using c insertion_sort_contract f tf by (rule transformed_block_any_sort)
  have e: "surviving (take 1 example_sentinel) @
      separated (transformed_block insertion_sort example_sentinel) @
      surviving (drop 3 example_sentinel) =
      [''import ('', ''\"fmt\"'', ''\"os\"'', '')'', ''const s = `'', ''`'']"
    by code_simp
  from formatFile_done [OF c r f lt] have
    "formatFile std_sort example_fs ''d.go'' =
       (\<lparr>m_path = ''d.go'', m_result_message = ''done''\<rparr>,
        example_fs(''d.go'' \<mapsto> endl_terminated
          [''import ('', ''\"fmt\"'', ''\"os\"'', '')'', ''const s = `'', ''`'']))"
    unfolding t e .
  with r f s show ?thesis by (intro conjI)
qed

theorem formatFile_drops_sentinel_outside_block_witness:
  "std_sort_contract insertion_sort \<and>
   readFile example_fs ''d.go'' = example_sentinel \<and>
   findIncludes example_sentinel = (1, 3) \<and>
   example_sentinel ! 5 = g_deleted_line \<and>
   formatFile insertion_sort example_fs ''d.go'' =
     (\<lparr>m_path = ''d.go'', m_result_message = ''done''\<rparr>,
      example_fs(''d.go'' \<mapsto> endl_terminated
        [''import ('', ''\"fmt\"'', ''\"os\"'', '')'', ''const s = `'', ''`'']))"
  using formatFile_drops_sentinel_outside_block [OF insertion_sort_contract]
    insertion_sort_contract
  by (intro conjI) simp_all

section \<open>Running twice, and the batch\<close>




text \<open>
  Claim C7.  A file that yields no line is reported \<open>failed to read from file\<close>, a
  file whose block is empty is reported \<open>no includes found\<close>, and in both cases the file
  system is left as it was.  After a report other than \<open>done\<close> the loop over the entries
  goes on with the remaining entries, the report appended; the reports of a batch
  are those of its entries with the extension \<open>.go\<close>, one each, in their order; and
  \<open>main\<close> prints them all when the traversal of the directory does not throw.
\<close>

theorem formatFile_errors_local:
  "(readFile fs path = [] \<longrightarrow>
      formatFile std_sort fs path =
        (\<lparr>m_path = path, m_result_message = ''failed to read from file''\<rparr>, fs)) \<and>
   (readFile fs path \<noteq> [] \<and>
    fst (findIncludes (readFile fs path)) \<ge> snd (findIncludes (readFile fs path)) \<longrightarrow>
      formatFile std_sort fs path =
        (\<lparr>m_path = path, m_result_message = ''no includes found''\<rparr>, fs)) \<and>
   (extension path = ''.go'' \<and>
    m_result_message (fst (formatFile std_sort fs path)) \<noteq> ''done'' \<longrightarrow>
      format_entries std_sort extension (path # entries) (result, fs) =
        format_entries std_sort extension entries
          (result @ [fst (formatFile std_sort fs path)], fs)) \<and>
   map m_path (fst (format_entries std_sort extension entries (result, fs))) =
     map m_path result @ filter (\<lambda>p. extension p = ''.go'') entries \<and>
   (length argv = 2 \<and> is_directory (argv ! 1) \<and>
    recursive_directory_iterator (argv ! 1) = (entries, False) \<longrightarrow>
      fst (snd (main std_sort extension is_directory recursive_directory_iterator argv fs)) =
        fst (format_entries std_sort extension entries ([], fs)))"
proof (intro conjI impI)
  show "readFile fs path = [] \<Longrightarrow>
      formatFile std_sort fs path =
        (\<lparr>m_path = path, m_result_message = ''failed to read from file''\<rparr>, fs)"
    by (simp add: formatFile_def)
  show "readFile fs path \<noteq> [] \<and>
    fst (findIncludes (readFile fs path)) \<ge> snd (findIncludes (readFile fs path)) \<Longrightarrow>
      formatFile std_sort fs path =
        (\<lparr>m_path = path, m_result_message = ''no includes found''\<rparr>, fs)"
    by (auto simp: formatFile_def Let_def split: prod.splits)
  show "extension path = ''.go'' \<and>
    m_result_message (fst (formatFile std_sort fs path)) \<noteq> ''done'' \<Longrightarrow>
      format_entries std_sort extension (path # entries) (result, fs) =
        format_entries std_sort extension entries
          (result @ [fst (formatFile std_sort fs path)], fs)"
    by (auto simp: formatFile_def Let_def split: prod.splits if_splits)
  show "map m_path (fst (format_entries std_sort extension entries (result, fs))) =
     map m_path result @ filter (\<lambda>p. extension p = ''.go'') entries"
    by (rule format_entries_paths)
  show "length argv = 2 \<and> is_directory (argv ! 1) \<and>
    recursive_directory_iterator (argv ! 1) = (entries, False) \<Longrightarrow>
      fst (snd (main std_sort extension is_directory recursive_directory_iterator argv fs)) =
        fst (format_entries std_sort extension entries ([], fs))"
    by (simp add: main_def Let_def split: prod.splits)
qed

theorem formatFile_errors_local_witness:
  "readFile example_fs ''e.go'' = [] \<and>
   formatFile insertion_sort example_fs ''e.go'' =
     (\<lparr>m_path = ''e.go'', m_result_message = ''failed to read from file''\<rparr>, example_fs) \<and>
   readFile example_fs ''b.go'' \<noteq> [] \<and>
   fst (findIncludes (readFile example_fs ''b.go''))
     \<ge> snd (findIncludes (readFile example_fs ''b.go'')) \<and>
   formatFile insertion_sort example_fs ''b.go'' =
     (\<lparr>m_path = ''b.go'', m_result_message = ''no includes found''\<rparr>, example_fs) \<and>
   example_extension ''e.go'' = ''.go'' \<and>
   format_entries insertion_sort example_extension [''e.go'', ''b.go'', ''notes.txt'', ''a.go'']
       ([], example_fs) =
     format_entries insertion_sort example_extension [''b.go'', ''notes.txt'', ''a.go'']
       ([\<lparr>m_path = ''e.go'', m_result_message = ''failed to read from file''\<rparr>], example_fs) \<and>
   fst (format_entries insertion_sort example_extension
         [''e.go'', ''b.go'', ''notes.txt'', ''a.go''] ([], example_fs)) =
     [\<lparr>m_path = ''e.go'', m_result_message = ''failed to read from file''\<rparr>,
      \<lparr>m_path = ''b.go'', m_result_message = ''no includes found''\<rparr>,
      \<lparr>m_path = ''a.go'', m_result_message = ''done''\<rparr>] \<and>
   fst (snd (main insertion_sort example_extension (\<lambda>path. path = ''src'')
         (\<lambda>path. ([''e.go'', ''b.go'', ''notes.txt'', ''a.go''], False))
         [''order_includes'', ''src''] example_fs)) =
     [\<lparr>m_path = ''e.go'', m_result_message = ''failed to read from file''\<rparr>,
      \<lparr>m_path = ''b.go'', m_result_message = ''no includes found''\<rparr>,
      \<lparr>m_path = ''a.go'', m_result_message = ''done''\<rparr>] \<and>
   fst (main insertion_sort example_extension (\<lambda>path. path = ''src'')
         (\<lambda>path. ([''e.go'', ''b.go'', ''notes.txt'', ''a.go''], False))
         [''order_includes'', ''src''] example_fs) = 0"
proof -
  note T = formatFile_errors_local
    [where fs = example_fs and std_sort = insertion_sort and extension = example_extension
       and is_directory = "\<lambda>path. path = ''src''"
       and recursive_directory_iterator =
         "\<lambda>path. ([''e.go'', ''b.go'', ''notes.txt'', ''a.go''], False)"
       and argv = "[''order_includes'', ''src'']"
       and entries = "[''e.go'', ''b.go'', ''notes.txt'', ''a.go'']"]
  note U = formatFile_errors_local
    [where fs = example_fs and std_sort = insertion_sort and extension = example_extension
       and path = "''e.go''" and entries = "[''b.go'', ''notes.txt'', ''a.go'']"
       and result = "[]"]
  have re: "readFile example_fs ''e.go'' = []" by code_simp
  have rb: "readFile example_fs ''b.go'' \<noteq> []" by code_simp
  have fb: "fst (findIncludes (readFile example_fs ''b.go''))
     \<ge> snd (findIncludes (readFile example_fs ''b.go''))" by code_simp
  have xe: "example_extension ''e.go'' = ''.go''" by code_simp
  have all: "fst (format_entries insertion_sort example_extension
         [''e.go'', ''b.go'', ''notes.txt'', ''a.go''] ([], example_fs)) =
     [\<lparr>m_path = ''e.go'', m_result_message = ''failed to read from file''\<rparr>,
      \<lparr>m_path = ''b.go'', m_result_message = ''no includes found''\<rparr>,
      \<lparr>m_path = ''a.go'', m_result_message = ''done''\<rparr>]"
    by code_simp
  have ex: "fst (main insertion_sort example_extension (\<lambda>path. path = ''src'')
         (\<lambda>path. ([''e.go'', ''b.go'', ''notes.txt'', ''a.go''], False))
         [''order_includes'', ''src''] example_fs) = 0"
    by code_simp
  have e: "formatFile insertion_sort example_fs ''e.go'' =
     (\<lparr>m_path = ''e.go'', m_result_message = ''failed to read from file''\<rparr>, example_fs)"
    using T [where path = "''e.go''"] re by simp
  have b: "formatFile insertion_sort example_fs ''b.go'' =
     (\<lparr>m_path = ''b.go'', m_result_message = ''no includes found''\<rparr>, example_fs)"
    using T [where path = "''b.go''"] rb fb by simp
  have nd: "m_result_message (fst (formatFile insertion_sort example_fs ''e.go'')) \<noteq> ''done''"
    by (simp add: e)
  have k: "format_entries insertion_sort example_extension
       [''e.go'', ''b.go'', ''notes.txt'', ''a.go''] ([], example_fs) =
     format_entries insertion_sort example_extension [''b.go'', ''notes.txt'', ''a.go'']
       ([\<lparr>m_path = ''e.go'', m_result_message = ''failed to read from file''\<rparr>], example_fs)"
    using U xe nd by (simp add: e)
  have m: "fst (snd (main insertion_sort example_extension (\<lambda>path. path = ''src'')
         (\<lambda>path. ([''e.go'', ''b.go'', ''notes.txt'', ''a.go''], False))
         [''order_includes'', ''src''] example_fs)) =
     [\<lparr>m_path = ''e.go'', m_result_message = ''failed to read from file''\<rparr>,
      \<lparr>m_path = ''b.go'', m_result_message = ''no includes found''\<rparr>,
      \<lparr>m_path = ''a.go'', m_result_message = ''done''\<rparr>]"
    using T [where path = "''e.go''"] all by simp
  from re e rb fb b xe k all m ex show ?thesis by (intro conjI)
qed

end
